theory Spec2Isabelle
  imports Complex_Main "HOL-Library.Word"
begin

section \<open>Poserspace: the network ingestion core of the two SDL displays\<close>

text \<open>
  The repository holds two programs that share their ingestion code word for word:
  \<^item> \<^verbatim>\<open>src/display/sdl/main.c++\<close>, the coordinate display (names prefixed \<open>geo_\<close> below
    where the two programs differ);
  \<^item> \<^verbatim>\<open>src/display/sdl/sidescroll/main.c++\<close>, the side-scrolling text display (names
    prefixed \<open>scroll_\<close> where they differ).
  The functions \<open>handleInput\<close>, \<open>acceptConnection\<close> and \<open>acceptInput\<close> are the same text
  in both files; they are embedded once, with the program's own \<open>handleLine\<close> passed in.

  What the C++ leaves to the outside is an input of the model: the value \<open>accept(2)\<close> and
  \<open>read(2)\<close> return, the bytes read, the numbers \<open>rand()\<close> draws, what \<open>atof\<close> makes
  of a text. Everything that ends the normal flow of control is a value of \<open>error\<close>.
  Output to \<open>std::cerr\<close> is not modelled.
\<close>

subsection \<open>Failures\<close>

datatype error =
    Thrown string       \<comment> \<open>a C++ \<open>throw\<close>, with its message\<close>
  | NullDereference     \<comment> \<open>\<open>interpreter->handleData\<close> on the null \<open>shared_ptr\<close>\<close>
  | OutOfBounds         \<comment> \<open>a read or write outside a \<open>std::vector\<close>\<close>
  | DivideByZero        \<comment> \<open>an integer \<open>%\<close> whose right operand is 0\<close>

subsection \<open>Characters and the string helpers of the standard library and Boost\<close>

definition LF :: char where "LF = CHR 0x0A"
definition CR :: char where "CR = CHR 0x0D"
definition TAB :: char where "TAB = CHR 0x09"
definition COLON :: char where "COLON = CHR '':''"

text \<open>\<open>std::isspace\<close> in the classic locale, which \<open>boost::algorithm::trim_left_copy\<close> uses.\<close>

definition isspace :: "char \<Rightarrow> bool" where
  "isspace ch = (ch \<in> set [CHR 0x20, CHR 0x09, CHR 0x0A, CHR 0x0B, CHR 0x0C, CHR 0x0D])"

definition trim_left_copy :: "string \<Rightarrow> string" where
  "trim_left_copy s = dropWhile isspace s"

text \<open>
  \<open>boost::algorithm::split(values, line, [](char c) { return c == '\t'; })\<close> with the
  default \<open>token_compress_off\<close>: every tab ends a field, and the result always holds at
  least one field.
\<close>

fun split_tab :: "string \<Rightarrow> string list" where
  "split_tab [] = [[]]"
| "split_tab (ch # s) =
     (if ch = TAB then [] # split_tab s
      else (case split_tab s of
              [] \<Rightarrow> [[ch]]
            | f # fs \<Rightarrow> (ch # f) # fs))"

text \<open>\<open>std::string::c_str\<close> as a C function reads it: the text before the first NUL.\<close>

definition c_str :: "string \<Rightarrow> string" where
  "c_str s = takeWhile (\<lambda>ch. ch \<noteq> CHR 0x00) s"

subsection \<open>The connection parser's data\<close>

datatype pstate = ACTION | HEADER | DATA

text \<open>
  \<open>class ConnectionState\<close>. The field \<open>interpreter\<close> is a \<open>shared_ptr<DataInterpreter>\<close>:
  either null (\<open>None\<close>) or one interpreter object, whose dynamic class is all that
  matters (the interpreter classes have no fields).
\<close>

record 'i ConnectionState =
  fd :: int
  buf :: string
  state :: pstate
  interpreter :: "'i option"

text \<open>The constructor \<open>ConnectionState(const int fd)\<close>.\<close>

definition mkConnectionState :: "int \<Rightarrow> 'i ConnectionState" where
  "mkConnectionState h = \<lparr>fd = h, buf = [], state = ACTION, interpreter = None\<rparr>"

subsection \<open>The coordinate display: interpreters, \<open>handleHeader\<close>, \<open>handleLine\<close>\<close>

text \<open>
  \<open>struct GeoData\<close> without the image. The coordinates are \<open>double\<close>s; the ingestion code
  only stores what \<open>atof\<close> returns, so their type is a parameter \<open>'f\<close> here and \<open>atof\<close>
  is passed in as a function.
\<close>

record 'f GeoData =
  targetLat :: 'f
  targetLon :: 'f
  currentLat :: 'f
  currentLon :: 'f

datatype geo_interpreter = GeoInterpreter | TextInterpreter

text \<open>
  \<open>GeoInterpreter::handleData\<close> prints \<open>data[0]\<close> and \<open>data[1]\<close>;
  \<open>TextInterpreter::handleData\<close> has an empty body.
\<close>

fun geo_handleData :: "geo_interpreter \<Rightarrow> string list \<Rightarrow> error + unit" where
  "geo_handleData GeoInterpreter data = (if length data < 2 then Inl OutOfBounds else Inr ())"
| "geo_handleData TextInterpreter data = Inr ()"

definition geo_handleHeader ::
  "geo_interpreter ConnectionState \<Rightarrow> string \<Rightarrow> string \<Rightarrow> geo_interpreter ConnectionState" where
  "geo_handleHeader c header v =
     (if header = ''Content-type'' then
        (let c1 = (if v = ''x-poserspace/geo'' then c\<lparr>interpreter := Some GeoInterpreter\<rparr> else c)
         in if v = ''x-poserspace/text'' then c1\<lparr>interpreter := Some TextInterpreter\<rparr> else c1)
      else c)"

definition geo_handleLine ::
  "(string \<Rightarrow> 'f) \<Rightarrow> 'f GeoData \<times> geo_interpreter ConnectionState \<Rightarrow> string
     \<Rightarrow> error + 'f GeoData \<times> geo_interpreter ConnectionState" where
  "geo_handleLine atof gc line =
     (case gc of (g, c) \<Rightarrow>
       (case state c of
          ACTION \<Rightarrow> Inr (g, c\<lparr>state := HEADER\<rparr>)
        | HEADER \<Rightarrow>
            if line = [] then Inr (g, c\<lparr>state := DATA\<rparr>)
            else if COLON \<notin> set line then Inl (Thrown (''invalid header: '' @ line))
            else
              (let header = takeWhile (\<lambda>ch. ch \<noteq> COLON) line;
                   headerValue = trim_left_copy (tl (dropWhile (\<lambda>ch. ch \<noteq> COLON) line))
               in Inr (g, geo_handleHeader c header headerValue))
        | DATA \<Rightarrow>
            (let values = split_tab line in
             case interpreter c of
               None \<Rightarrow> Inl NullDereference
             | Some i \<Rightarrow>
                 (case geo_handleData i values of
                    Inl e \<Rightarrow> Inl e
                  | Inr u \<Rightarrow>
                      if length values < 2 then Inl OutOfBounds
                      else Inr (g\<lparr>targetLat := atof (c_str (values ! 0)),
                                  targetLon := atof (c_str (values ! 1))\<rparr>, c)))))"

subsection \<open>The side-scrolling display: \<open>maxsize\<close>, the text interpreter, \<open>handleLine\<close>\<close>

datatype TTF_Font = TTF_Font int  \<comment> \<open>the font \<open>TTF_OpenFont\<close> opened at this point size\<close>

text \<open>
  \<open>struct Line\<close>. The \<open>float\<close> fields only ever receive integers here, and are integers
  in the model; \<open>surface\<close> is a pointer that \<open>handleData\<close> sets to null.
\<close>

record Line =
  line_font :: "TTF_Font option"
  line_x :: int
  line_y :: int
  line_w :: int
  line_h :: int
  content :: string
  surface :: "nat option"
  col_r :: int
  col_g :: int
  col_b :: int

text \<open>
  The globals \<open>lines\<close> and \<open>fonts\<close>, and the pseudo-random generator behind \<open>rand()\<close>:
  the sequence of numbers it will return (each at least 0; nothing below depends on
  \<open>RAND_MAX\<close>) and how many have been drawn.
\<close>

record scroll_globals =
  lines :: "Line list"
  fonts :: "TTF_Font option list"
  rand_seq :: "nat \<Rightarrow> nat"
  rand_calls :: nat

definition rand :: "scroll_globals \<Rightarrow> int \<times> scroll_globals" where
  "rand s = (int (rand_seq s (rand_calls s)), s\<lparr>rand_calls := Suc (rand_calls s)\<rparr>)"

text \<open>
  \<open>int maxsize(int lineCount)\<close>. The left operand of every \<open>%\<close> is a \<open>rand()\<close> result,
  which is not negative, and the right operand is a positive constant or
  \<open>lineCount \<ge> 200\<close>, so C++'s \<open>%\<close> is \<open>mod\<close> here.
\<close>

definition maxsize :: "int \<Rightarrow> scroll_globals \<Rightarrow> int \<times> scroll_globals" where
  "maxsize lineCount s =
     (if lineCount < 20 then (28, s)
      else if lineCount < 25 then (case rand s of (r, s') \<Rightarrow> (if r mod 10 \<noteq> 0 then 24 else 28, s'))
      else if lineCount < 30 then (case rand s of (r, s') \<Rightarrow> (if r mod 15 \<noteq> 0 then 20 else 28, s'))
      else if lineCount < 50 then (case rand s of (r, s') \<Rightarrow> (if r mod 20 \<noteq> 0 then 16 else 24, s'))
      else if lineCount < 80 then (case rand s of (r, s') \<Rightarrow> (if r mod 40 \<noteq> 0 then 12 else 24, s'))
      else if lineCount < 110 then (case rand s of (r, s') \<Rightarrow> (if r mod 50 \<noteq> 0 then 8 else 24, s'))
      else if lineCount < 200 then (case rand s of (r, s') \<Rightarrow> (if r mod 100 \<noteq> 0 then 4 else 24, s'))
      else (case rand s of (r, s') \<Rightarrow> (if r mod lineCount \<noteq> 0 then 1 else 24, s')))"

text \<open>
  The conversion to \<open>int\<close> of the \<open>float\<close> whose value is \<open>a / 32\<close>: truncation towards
  zero.
\<close>

definition trunc32 :: "int \<Rightarrow> int" where
  "trunc32 a = (if 0 \<le> a then a div 32 else - ((- a) div 32))"

text \<open>
  \<open>TextInterpreter::handleData\<close>.
  \<^item> \<open>lines.size()\<close> is a \<open>size_t\<close> passed for an \<open>int\<close> parameter: the low 32 bits, read
    as two's complement.
  \<^item> In \<open>rand() % maxsize(lines.size())\<close> C++ does not fix which operand is evaluated
    first; the model draws the left operand first.
  \<^item> \<open>l.col.g = 64 + 191 * l.h / 32 - (rand() % 32)\<close> is computed in \<open>float\<close> and
    truncated on assignment; every intermediate value is a multiple of \<open>1/32\<close> that
    \<open>float\<close> holds exactly, so the result is \<open>trunc32 (64 * 32 + 191 * l.h - 32 * (rand() % 32))\<close>.
  \<^item> \<open>WIDTH\<close> is 1920 and \<open>HEIGHT\<close> is 1080.
\<close>

definition scroll_handleData :: "string list \<Rightarrow> scroll_globals \<Rightarrow> error + scroll_globals" where
  "scroll_handleData line s =
     (if line = [] then Inl OutOfBounds
      else if line ! 0 = [] then Inr s
      else
        (case rand s of (r1, s1) \<Rightarrow>
         case maxsize (sint (word_of_nat (length (lines s1)) :: 32 word)) s1 of (m, s2) \<Rightarrow>
           if m = 0 then Inl DivideByZero
           else
             (let hh = r1 mod m + 4 in
              if hh < 0 \<or> int (length (fonts s2)) \<le> hh then Inl OutOfBounds
              else
                (case rand s2 of (r2, s3) \<Rightarrow>
                 case rand s3 of (r3, s4) \<Rightarrow>
                   Inr (s4\<lparr>lines := lines s4 @
                     [\<lparr>line_font = fonts s2 ! nat hh,
                       line_x = 1920,
                       line_y = r2 mod 1080,
                       line_w = 1920 * 2,
                       line_h = hh,
                       content = line ! 0,
                       surface = None,
                       col_r = 0,
                       col_g = trunc32 (64 * 32 + 191 * hh - 32 * (r3 mod 32)),
                       col_b = 0\<rparr>]\<rparr>)))))"

datatype scroll_interpreter = ScrollTextInterpreter  \<comment> \<open>\<open>class TextInterpreter\<close> of this program\<close>

definition scroll_handleHeader ::
  "scroll_interpreter ConnectionState \<Rightarrow> string \<Rightarrow> string \<Rightarrow> scroll_interpreter ConnectionState" where
  "scroll_handleHeader c header v =
     (if header = ''Content-type'' then
        (if v = ''x-poserspace/text'' then c\<lparr>interpreter := Some ScrollTextInterpreter\<rparr> else c)
      else c)"

definition scroll_handleLine ::
  "scroll_globals \<times> scroll_interpreter ConnectionState \<Rightarrow> string
     \<Rightarrow> error + scroll_globals \<times> scroll_interpreter ConnectionState" where
  "scroll_handleLine gc line =
     (case gc of (g, c) \<Rightarrow>
       (case state c of
          ACTION \<Rightarrow> Inr (g, c\<lparr>state := HEADER\<rparr>)
        | HEADER \<Rightarrow>
            if line = [] then Inr (g, c\<lparr>state := DATA\<rparr>)
            else if COLON \<notin> set line then Inl (Thrown (''invalid header: '' @ line))
            else
              (let header = takeWhile (\<lambda>ch. ch \<noteq> COLON) line;
                   headerValue = trim_left_copy (tl (dropWhile (\<lambda>ch. ch \<noteq> COLON) line))
               in Inr (g, scroll_handleHeader c header headerValue))
        | DATA \<Rightarrow>
            (let values = split_tab line in
             case interpreter c of
               None \<Rightarrow> Inl NullDereference
             | Some ScrollTextInterpreter \<Rightarrow>
                 (case scroll_handleData values g of
                    Inl e \<Rightarrow> Inl e
                  | Inr g' \<Rightarrow> Inr (g', c)))))"

subsection \<open>\<open>handleInput\<close>: cutting the receive buffer into lines\<close>

text \<open>
  The loop of \<open>ConnectionState::handleInput\<close>, the same in both programs.
  \<open>nl\<close> is the position of the first line feed. The test \<open>*(e - 1) == '\r'\<close> looks at
  the character before the line feed. When the line feed is the first character of the
  buffer there is no such character: the read falls on the byte in front of the string's
  characters, which belongs to the string's own bookkeeping (the high byte of a size) and
  is not a carriage return in the program as compiled. The program takes the empty line
  and goes on, and so does the model. \<open>handleLine\<close> does not touch \<open>buf\<close>, so the rest
  after the line feed is taken from the buffer as it was when the line feed was found.
\<close>

function inputLoop ::
  "('d \<times> 'i ConnectionState \<Rightarrow> string \<Rightarrow> error + 'd \<times> 'i ConnectionState)
     \<Rightarrow> 'd \<times> 'i ConnectionState \<Rightarrow> error + 'd \<times> 'i ConnectionState" where
  "inputLoop handleLine (g, c) =
     (if LF \<notin> set (buf c) then Inr (g, c)
      else
        (let nl = length (takeWhile (\<lambda>ch. ch \<noteq> LF) (buf c));
             e = (if 0 < nl \<and> buf c ! (nl - 1) = CR then nl - 1 else nl)
         in case handleLine (g, c) (take e (buf c)) of
              Inl err \<Rightarrow> Inl err
            | Inr (g', c') \<Rightarrow> inputLoop handleLine (g', c'\<lparr>buf := drop (Suc nl) (buf c)\<rparr>)))"
  by pat_completeness auto
termination
  by (relation "measure (\<lambda>(handleLine, g, c). length (buf c))")
    (auto dest: length_pos_if_in_set)

declare inputLoop.simps [simp del]

definition handleInput ::
  "('d \<times> 'i ConnectionState \<Rightarrow> string \<Rightarrow> error + 'd \<times> 'i ConnectionState)
     \<Rightarrow> 'd \<times> 'i ConnectionState \<Rightarrow> string \<Rightarrow> error + 'd \<times> 'i ConnectionState" where
  "handleInput handleLine gc input =
     (case gc of (g, c) \<Rightarrow> inputLoop handleLine (g, c\<lparr>buf := buf c @ input\<rparr>))"

subsection \<open>The registry, the poller and the event loop\<close>

text \<open>
  The process-wide state the loop works on: the vector \<open>connections\<close>, the globals of
  the program at hand, and the two pieces of kernel state the claims speak of, the
  interest list of the epoll instance and the descriptors that \<open>accept\<close> has opened and
  \<open>close\<close> has not yet closed.
\<close>

record ('i, 'd) world =
  connections :: "'i ConnectionState list"
  interest :: "int list"
  open_fds :: "int list"
  globals :: 'd

text \<open>
  \<open>epoll_ctl(2)\<close> as its manual page has it: \<open>EPOLL_CTL_ADD\<close> fails (\<open>EEXIST\<close>) for a
  descriptor that is already on the interest list, \<open>EPOLL_CTL_DEL\<close> fails (\<open>ENOENT\<close>) for
  one that is not. \<open>close(2)\<close> also takes the descriptor off the interest list.
\<close>

definition epoll_ctl_add :: "int list \<Rightarrow> int \<Rightarrow> int list option" where
  "epoll_ctl_add il h = (if h \<in> set il then None else Some (il @ [h]))"

definition epoll_ctl_del :: "int list \<Rightarrow> int \<Rightarrow> int list option" where
  "epoll_ctl_del il h = (if h \<in> set il then Some (removeAll h il) else None)"

definition sys_close :: "int \<Rightarrow> ('i, 'd) world \<Rightarrow> ('i, 'd) world" where
  "sys_close h w = w\<lparr>interest := removeAll h (interest w), open_fds := removeAll h (open_fds w)\<rparr>"

text \<open>\<open>while(connections.size() < con) connections.push_back(ConnectionState(-1));\<close>\<close>

function grow :: "'i ConnectionState list \<Rightarrow> nat \<Rightarrow> 'i ConnectionState list" where
  "grow cs con = (if length cs < con then grow (cs @ [mkConnectionState (- 1)]) con else cs)"
  by pat_completeness auto
termination
  by (relation "measure (\<lambda>(cs, con). con - length cs)") auto

declare grow.simps [simp del]

text \<open>\<open>acceptConnection\<close>; \<open>ret\<close> is what \<open>accept(2)\<close> returns.\<close>

definition acceptConnection :: "int \<Rightarrow> ('i, 'd) world \<Rightarrow> error + ('i, 'd) world" where
  "acceptConnection ret w =
     (if ret < 0 then Inl (Thrown ''accept(2) failed'')
      else
        (let con = nat ret in
         case epoll_ctl_add (interest w) (int con) of
           None \<Rightarrow> Inl (Thrown ''epoll_ctl(2) failed'')
         | Some il \<Rightarrow>
             Inr (w\<lparr>interest := il,
                    open_fds := open_fds w @ [ret],
                    connections := grow (connections w) con @ [mkConnectionState (int con)]\<rparr>)))"

text \<open>
  \<open>acceptInput\<close>; \<open>len\<close> is what \<open>read(2)\<close> returns and \<open>bytes\<close> what it left in
  \<open>buffer\<close>. The vector is indexed with \<open>operator[]\<close>, which does not check its index.
\<close>

definition acceptInput ::
  "('d \<times> 'i ConnectionState \<Rightarrow> string \<Rightarrow> error + 'd \<times> 'i ConnectionState)
     \<Rightarrow> int \<Rightarrow> int \<Rightarrow> string \<Rightarrow> ('i, 'd) world \<Rightarrow> error + ('i, 'd) world" where
  "acceptInput handleLine h len bytes w =
     (if len < 0 then
        (case epoll_ctl_del (interest w) 0 of
           None \<Rightarrow> Inl (Thrown ''epoll_ctl(2) failed'')
         | Some il \<Rightarrow>
             (let w1 = sys_close h (w\<lparr>interest := il\<rparr>) in
              if h < 0 \<or> int (length (connections w1)) \<le> h then Inl OutOfBounds
              else Inr (w1\<lparr>connections := (connections w1)[nat h := mkConnectionState (- 1)]\<rparr>)))
      else
        (if h < 0 \<or> int (length (connections w)) \<le> h then Inl OutOfBounds
         else
           (case handleInput handleLine (globals w, connections w ! nat h) (take (nat len) bytes) of
              Inl e \<Rightarrow> Inl e
            | Inr (g', c') \<Rightarrow> Inr (w\<lparr>globals := g', connections := (connections w)[nat h := c']\<rparr>))))"

text \<open>
  One entry of \<open>events[]\<close> as \<open>epoll_wait\<close> filled it, together with what the system call
  made for it returns: \<open>accept\<close>'s result for the listening socket, \<open>read\<close>'s result and
  the bytes read for any other descriptor.
\<close>

datatype event = Event (ev_fd: int) (sys_ret: int) (sys_bytes: string)

definition dispatch ::
  "('d \<times> 'i ConnectionState \<Rightarrow> string \<Rightarrow> error + 'd \<times> 'i ConnectionState)
     \<Rightarrow> int \<Rightarrow> ('i, 'd) world \<Rightarrow> event \<Rightarrow> error + ('i, 'd) world" where
  "dispatch handleLine serverSocket w ev =
     (if ev_fd ev = serverSocket then acceptConnection (sys_ret ev) w
      else acceptInput handleLine (ev_fd ev) (sys_ret ev) (sys_bytes ev) w)"

text \<open>The \<open>for\<close> loop over the ready events.\<close>

fun forEvents ::
  "('d \<times> 'i ConnectionState \<Rightarrow> string \<Rightarrow> error + 'd \<times> 'i ConnectionState)
     \<Rightarrow> int \<Rightarrow> ('i, 'd) world \<Rightarrow> event list \<Rightarrow> error + ('i, 'd) world" where
  "forEvents handleLine serverSocket w [] = Inr w"
| "forEvents handleLine serverSocket w (ev # evs) =
     (case dispatch handleLine serverSocket w ev of
        Inl e \<Rightarrow> Inl e
      | Inr w' \<Rightarrow> forEvents handleLine serverSocket w' evs)"

text \<open>
  What the outside feeds one turn of \<open>while(running)\<close>: the result of \<open>gettimeofday\<close> in
  \<open>now()\<close>, whether an \<open>SDL_QUIT\<close> event is pending, whether the next frame is due, what
  \<open>epoll_wait\<close> returns and the events it reports.
\<close>

record iteration =
  gettimeofday_ret :: int
  quit_pending :: bool
  frame_due :: bool
  epoll_wait_ret :: int
  ready :: "event list"

text \<open>
  The loop of \<open>main\<close>, run over the turns the outside feeds it. \<open>pollsQuit\<close> says whether
  the program looks at SDL events (the side-scrolling display does, the coordinate display
  does not); \<open>renderFrame\<close> is the frame callback, which works on the globals only.
  The loop does not catch anything, so a failure in a turn ends it.
\<close>

fun mainLoop ::
  "bool \<Rightarrow> ('d \<Rightarrow> error + 'd)
     \<Rightarrow> ('d \<times> 'i ConnectionState \<Rightarrow> string \<Rightarrow> error + 'd \<times> 'i ConnectionState)
     \<Rightarrow> int \<Rightarrow> ('i, 'd) world \<Rightarrow> iteration list \<Rightarrow> error + ('i, 'd) world" where
  "mainLoop pollsQuit renderFrame handleLine serverSocket w [] = Inr w"
| "mainLoop pollsQuit renderFrame handleLine serverSocket w (it # its) =
     (if gettimeofday_ret it < 0 then Inl (Thrown ''gettimeofday(2) failed'')
      else
        (case (if frame_due it then renderFrame (globals w) else Inr (globals w)) of
           Inl e \<Rightarrow> Inl e
         | Inr g \<Rightarrow>
             if epoll_wait_ret it < 0 then Inl (Thrown ''epoll_wait(2) failed'')
             else
               (case forEvents handleLine serverSocket (w\<lparr>globals := g\<rparr>)
                       (take (nat (epoll_wait_ret it)) (ready it)) of
                  Inl e \<Rightarrow> Inl e
                | Inr w' \<Rightarrow>
                    if pollsQuit \<and> quit_pending it then Inr w'
                    else mainLoop pollsQuit renderFrame handleLine serverSocket w' its)))"

definition geo_mainLoop ::
  "(string \<Rightarrow> 'f) \<Rightarrow> ('f GeoData \<Rightarrow> error + 'f GeoData) \<Rightarrow> int
     \<Rightarrow> (geo_interpreter, 'f GeoData) world \<Rightarrow> iteration list
     \<Rightarrow> error + (geo_interpreter, 'f GeoData) world" where
  "geo_mainLoop atof renderFrame = mainLoop False renderFrame (geo_handleLine atof)"

definition scroll_mainLoop ::
  "(scroll_globals \<Rightarrow> error + scroll_globals) \<Rightarrow> int
     \<Rightarrow> (scroll_interpreter, scroll_globals) world \<Rightarrow> iteration list
     \<Rightarrow> error + (scroll_interpreter, scroll_globals) world" where
  "scroll_mainLoop renderFrame = mainLoop True renderFrame scroll_handleLine"

text \<open>
  The start of the side-scrolling display's \<open>main\<close>: the font table, a null entry and
  then one font per point size from 1 to 31; \<open>openFont\<close> is \<open>TTF_OpenFont\<close>'s result.
\<close>

function fontLoop ::
  "(int \<Rightarrow> TTF_Font option) \<Rightarrow> int \<Rightarrow> TTF_Font option list \<Rightarrow> error + TTF_Font option list" where
  "fontLoop openFont i fs =
     (if i < 32 then
        (let fs' = fs @ [openFont i] in
         if last fs' = None then Inl (Thrown ''TTF_OpenFont failed'')
         else fontLoop openFont (i + 1) fs')
      else Inr fs)"
  by pat_completeness auto
termination
  by (relation "measure (\<lambda>(openFont, i, fs). nat (32 - i))") auto

declare fontLoop.simps [simp del]

definition loadFonts :: "(int \<Rightarrow> TTF_Font option) \<Rightarrow> error + TTF_Font option list" where
  "loadFonts openFont = fontLoop openFont 1 [None]"

subsection \<open>Drivers for stating the properties\<close>

text \<open>
  Successive reads on one connection: \<open>acceptInput\<close> hands each chunk to \<open>handleInput\<close> of
  the same \<open>ConnectionState\<close>, and a failure ends the run.
\<close>

fun feedChunks ::
  "('d \<times> 'i ConnectionState \<Rightarrow> string \<Rightarrow> error + 'd \<times> 'i ConnectionState)
     \<Rightarrow> 'd \<times> 'i ConnectionState \<Rightarrow> string list \<Rightarrow> error + 'd \<times> 'i ConnectionState" where
  "feedChunks handleLine gc [] = Inr gc"
| "feedChunks handleLine gc (chunk # chunks) =
     (case handleInput handleLine gc chunk of
        Inl e \<Rightarrow> Inl e
      | Inr gc' \<Rightarrow> feedChunks handleLine gc' chunks)"

text \<open>Successive calls of \<open>handleLine\<close> on one connection, one per received line.\<close>

fun runLines ::
  "('d \<times> 'i ConnectionState \<Rightarrow> string \<Rightarrow> error + 'd \<times> 'i ConnectionState)
     \<Rightarrow> 'd \<times> 'i ConnectionState \<Rightarrow> string list \<Rightarrow> error + 'd \<times> 'i ConnectionState" where
  "runLines handleLine gc [] = Inr gc"
| "runLines handleLine gc (line # ls) =
     (case handleLine gc line of
        Inl e \<Rightarrow> Inl e
      | Inr gc' \<Rightarrow> runLines handleLine gc' ls)"

text \<open>
  An observer in the place of \<open>handleLine\<close>: it keeps the lines \<open>handleInput\<close> hands over,
  in order, and does nothing else.
\<close>

definition traceLine ::
  "string list \<times> 'i ConnectionState \<Rightarrow> string \<Rightarrow> error + string list \<times> 'i ConnectionState" where
  "traceLine gc line = (case gc of (seen, c) \<Rightarrow> Inr (seen @ [line], c))"

text \<open>
  A stand-in for \<open>atof\<close> on which the model can be run: it reads leading white space, a
  sign, digits and a fraction, and returns the exact value of what it read, 0 when there
  is no digit. The C library's \<open>atof\<close> rounds to a \<open>double\<close> and reads more forms; the
  theorems below hold for every function in the place of \<open>atof\<close>.
\<close>

definition is_digit :: "char \<Rightarrow> bool" where
  "is_digit ch = (ch \<in> set ''0123456789'')"

definition digit_value :: "char \<Rightarrow> nat" where
  "digit_value ch = of_char ch - 48"

definition digits_value :: "string \<Rightarrow> nat" where
  "digits_value ds = foldl (\<lambda>a ch. 10 * a + digit_value ch) 0 ds"

definition atof_decimal :: "string \<Rightarrow> rat" where
  "atof_decimal s =
     (let s1 = dropWhile isspace s;
          neg = (s1 \<noteq> [] \<and> hd s1 = CHR ''-'');
          s2 = (if s1 \<noteq> [] \<and> hd s1 \<in> set ''+-'' then tl s1 else s1);
          ip = takeWhile is_digit s2;
          r = dropWhile is_digit s2;
          fp = (if r \<noteq> [] \<and> hd r = CHR ''.'' then takeWhile is_digit (tl r) else []);
          v = of_nat (digits_value ip) + of_nat (digits_value fp) / 10 ^ length fp
      in if neg then - v else v)"

subsection \<open>What the kernel guarantees, and the registry's invariant\<close>

text \<open>
  The parser state a connection starts in: the members \<open>buf\<close>, \<open>state\<close> and
  \<open>interpreter\<close> as the constructor sets them. The member \<open>fd\<close> is not part of it: it is
  only passed to \<open>handleLine\<close>, whose first parameter has no name and is never read.
\<close>

definition fresh_parser :: "'i ConnectionState \<Rightarrow> bool" where
  "fresh_parser c = (buf c = [] \<and> state c = ACTION \<and> interpreter c = None)"

text \<open>
  The invariant of the registry: what is on the interest list is open, and every slot
  whose index is not an open descriptor holds the starting parser state.
\<close>

definition registry_ok :: "('i, 'd) world \<Rightarrow> bool" where
  "registry_ok w =
     (set (interest w) \<subseteq> set (open_fds w) \<and>
      (\<forall>i\<in>{0..<length (connections w)}.
         int i \<in> set (open_fds w) \<or> fresh_parser (connections w ! i)))"

text \<open>
  What the kernel guarantees for one ready event: \<open>accept(2)\<close> returns a descriptor that
  was not open, and \<open>epoll_wait\<close> reports only descriptors that are on the interest list.
\<close>

definition event_ok :: "int \<Rightarrow> ('i, 'd) world \<Rightarrow> event \<Rightarrow> bool" where
  "event_ok serverSocket w ev =
     (if ev_fd ev = serverSocket then sys_ret ev \<notin> set (open_fds w)
      else ev_fd ev \<in> set (interest w))"

text \<open>The same for a sequence of events, each in the world the events before it left.\<close>

fun kernel_events ::
  "('d \<times> 'i ConnectionState \<Rightarrow> string \<Rightarrow> error + 'd \<times> 'i ConnectionState)
     \<Rightarrow> int \<Rightarrow> ('i, 'd) world \<Rightarrow> event list \<Rightarrow> bool" where
  "kernel_events handleLine serverSocket w [] = True"
| "kernel_events handleLine serverSocket w (ev # evs) =
     (event_ok serverSocket w ev \<and>
      (case dispatch handleLine serverSocket w ev of
         Inl e \<Rightarrow> True
       | Inr w' \<Rightarrow> kernel_events handleLine serverSocket w' evs))"

subsection \<open>Sample inputs\<close>

text \<open>
  The globals of the side-scrolling display when \<open>main\<close> enters its loop with every font
  opened, no line on screen yet, and a generator whose \<open>k\<close>-th number is \<open>7 * k + 3\<close>.
\<close>

definition sample_openFont :: "int \<Rightarrow> TTF_Font option" where
  "sample_openFont i = Some (TTF_Font i)"

definition sample_scroll :: scroll_globals where
  "sample_scroll =
     \<lparr>lines = [],
      fonts =
        [None, Some (TTF_Font 1), Some (TTF_Font 2), Some (TTF_Font 3),
         Some (TTF_Font 4), Some (TTF_Font 5), Some (TTF_Font 6), Some (TTF_Font 7),
         Some (TTF_Font 8), Some (TTF_Font 9), Some (TTF_Font 10), Some (TTF_Font 11),
         Some (TTF_Font 12), Some (TTF_Font 13), Some (TTF_Font 14), Some (TTF_Font 15),
         Some (TTF_Font 16), Some (TTF_Font 17), Some (TTF_Font 18), Some (TTF_Font 19),
         Some (TTF_Font 20), Some (TTF_Font 21), Some (TTF_Font 22), Some (TTF_Font 23),
         Some (TTF_Font 24), Some (TTF_Font 25), Some (TTF_Font 26), Some (TTF_Font 27),
         Some (TTF_Font 28), Some (TTF_Font 29), Some (TTF_Font 30), Some (TTF_Font 31)],
      rand_seq = (\<lambda>k. 7 * k + 3),
      rand_calls = 0\<rparr>"

text \<open>The globals of the coordinate display with every coordinate at 0.\<close>

definition sample_geo :: "rat GeoData" where
  "sample_geo = \<lparr>targetLat = 0, targetLon = 0, currentLat = 0, currentLon = 0\<rparr>"

text \<open>
  The process after \<open>prepareSocket\<close> and \<open>prepareEpoll\<close>, with 3 for the listening
  socket: it is open and on the interest list, and no connection has been accepted.
\<close>

definition sample_world :: "'d \<Rightarrow> ('i, 'd) world" where
  "sample_world g = \<lparr>connections = [], interest = [3], open_fds = [3], globals = g\<rparr>"

text \<open>
  The same process after \<open>acceptConnection\<close> has accepted one connection with
  descriptor 5.
\<close>

definition sample_connected :: "'d \<Rightarrow> ('i, 'd) world" where
  "sample_connected g =
     \<lparr>connections =
        [mkConnectionState (- 1), mkConnectionState (- 1), mkConnectionState (- 1),
         mkConnectionState (- 1), mkConnectionState (- 1), mkConnectionState 5],
      interest = [3, 5], open_fds = [3, 5], globals = g\<rparr>"

text \<open>One turn of the loop of \<open>main\<close> in which no frame is due and the events are ready.\<close>

definition sample_turn :: "event list \<Rightarrow> iteration" where
  "sample_turn evs =
     \<lparr>gettimeofday_ret = 0, quit_pending = False, frame_due = False,
      epoll_wait_ret = int (length evs), ready = evs\<rparr>"

section \<open>Properties\<close>

subsection \<open>The size policy and the font table\<close>

lemma fst_if_in: "fst p \<in> S \<Longrightarrow> fst q \<in> S \<Longrightarrow> fst (if c then p else q) \<in> S"
  by simp

lemma snd_if_in: "snd p \<in> S \<Longrightarrow> snd q \<in> S \<Longrightarrow> snd (if c then p else q) \<in> S"
  by simp

lemma maxsize_values: "fst (maxsize n s) \<in> {1, 4, 8, 12, 16, 20, 24, 28}"
  unfolding maxsize_def rand_def prod.case
  by (intro fst_if_in) simp_all

lemma maxsize_state: "snd (maxsize n s) \<in> {s, s\<lparr>rand_calls := Suc (rand_calls s)\<rparr>}"
  unfolding maxsize_def rand_def prod.case
  by (intro snd_if_in) simp_all

lemma maxsize_keeps:
  "lines (snd (maxsize n s)) = lines s" "fonts (snd (maxsize n s)) = fonts s"
  using maxsize_state[of n s] by auto

lemma maxsize_lt20: "n < 20 \<Longrightarrow> fst (maxsize n s) = 28"
  by (simp add: maxsize_def)

lemma maxsize_lt25: "20 \<le> n \<Longrightarrow> n < 25 \<Longrightarrow> fst (maxsize n s) \<in> {24, 28}"
  by (simp add: maxsize_def rand_def)

lemma maxsize_lt30: "25 \<le> n \<Longrightarrow> n < 30 \<Longrightarrow> fst (maxsize n s) \<in> {20, 28}"
  by (simp add: maxsize_def rand_def)

lemma maxsize_lt50: "30 \<le> n \<Longrightarrow> n < 50 \<Longrightarrow> fst (maxsize n s) \<in> {16, 24}"
  by (simp add: maxsize_def rand_def)

lemma maxsize_lt80: "50 \<le> n \<Longrightarrow> n < 80 \<Longrightarrow> fst (maxsize n s) \<in> {12, 24}"
  by (simp add: maxsize_def rand_def)

lemma maxsize_lt110: "80 \<le> n \<Longrightarrow> n < 110 \<Longrightarrow> fst (maxsize n s) \<in> {8, 24}"
  by (simp add: maxsize_def rand_def)

lemma maxsize_lt200: "110 \<le> n \<Longrightarrow> n < 200 \<Longrightarrow> fst (maxsize n s) \<in> {4, 24}"
  by (simp add: maxsize_def rand_def)

lemma maxsize_ge200: "200 \<le> n \<Longrightarrow> fst (maxsize n s) \<in> {1, 24}"
  by (simp add: maxsize_def rand_def)

lemma rand_keeps:
  "lines (snd (rand s)) = lines s" "fonts (snd (rand s)) = fonts s" "0 \<le> fst (rand s)"
  by (simp_all add: rand_def)

text \<open>
  What \<open>TextInterpreter::handleData\<close> of the side-scrolling display does with a record
  whose first field is not empty, when the font table has its 32 entries.
\<close>

lemma scroll_handleData_item:
  assumes v: "values \<noteq> []" "values ! 0 \<noteq> []" and f: "length (fonts s) = 32"
  defines "m \<equiv> fst (maxsize (sint (word_of_nat (length (lines s)) :: 32 word)) (snd (rand s)))"
  defines "hh \<equiv> fst (rand s) mod m + 4"
  shows "\<exists>l s'. scroll_handleData values s = Inr s' \<and> lines s' = lines s @ [l]
           \<and> fonts s' = fonts s \<and> content l = values ! 0 \<and> line_h l = hh
           \<and> line_font l = fonts s ! nat hh"
    and "4 \<le> hh" and "hh < 4 + m" and "hh \<le> 31"
proof -
  have mv: "m \<in> {1, 4, 8, 12, 16, 20, 24, 28}"
    unfolding m_def by (rule maxsize_values)
  then have mpos: "0 < m" and mle: "m \<le> 28" by auto
  have r: "0 \<le> fst (rand s)" by (rule rand_keeps)
  show h4: "4 \<le> hh" and hm: "hh < 4 + m"
    using mpos r by (simp_all add: hh_def)
  then show h31: "hh \<le> 31" using mle by simp
  obtain r1 s1 where rs: "rand s = (r1, s1)" by (cases "rand s")
  obtain m' s2 where ms: "maxsize (sint (word_of_nat (length (lines s1)) :: 32 word)) s1 = (m', s2)"
    by (cases "maxsize (sint (word_of_nat (length (lines s1)) :: 32 word)) s1")
  have l1: "lines s1 = lines s" "fonts s1 = fonts s"
    using rand_keeps(1,2)[of s] rs by simp_all
  have m'm: "m' = m" using ms rs l1 by (simp add: m_def)
  have l2: "lines s2 = lines s" "fonts s2 = fonts s"
    using maxsize_keeps[of "sint (word_of_nat (length (lines s1)) :: 32 word)" s1] ms l1 by simp_all
  obtain r2 s3 where r2: "rand s2 = (r2, s3)" by (cases "rand s2")
  obtain r3 s4 where r3: "rand s3 = (r3, s4)" by (cases "rand s3")
  have l3: "lines s3 = lines s" "fonts s3 = fonts s"
    using rand_keeps(1,2)[of s2] r2 l2 by simp_all
  have l4: "lines s4 = lines s" "fonts s4 = fonts s"
    using rand_keeps(1,2)[of s3] r3 l3 by simp_all
  have hh: "r1 mod m + 4 = hh" using rs by (simp add: hh_def)
  show "\<exists>l s'. scroll_handleData values s = Inr s' \<and> lines s' = lines s @ [l]
           \<and> fonts s' = fonts s \<and> content l = values ! 0 \<and> line_h l = hh
           \<and> line_font l = fonts s ! nat hh"
    using v f mpos h4 h31
    by (simp add: scroll_handleData_def rs ms m'm l2 l4 r2 r3 hh Let_def)
qed

lemma sint_count: "k < 2 ^ 31 \<Longrightarrow> sint (word_of_nat k :: 32 word) = int k"
  by (simp add: signed_of_nat signed_take_bit_int_eq_self)

text \<open>The loop that fills the font table appends one opened font per point size.\<close>

lemma fontLoop_result:
  "fontLoop openFont i fs = Inr fs' \<Longrightarrow> i \<le> 32 \<Longrightarrow>
     \<exists>ys. fs' = fs @ ys \<and> None \<notin> set ys \<and> length ys = nat (32 - i)"
proof (induction openFont i fs rule: fontLoop.induct)
  case (1 openFont i fs)
  show ?case
  proof (cases "i < 32")
    case False
    with "1.prems" have "i = 32" "fs' = fs"
      by (simp_all add: fontLoop.simps[of openFont i fs])
    then show ?thesis by simp
  next
    case True
    from True "1.prems" have ne: "openFont i \<noteq> None"
      and rec: "fontLoop openFont (i + 1) (fs @ [openFont i]) = Inr fs'"
      by (simp_all add: fontLoop.simps[of openFont i fs] split: if_splits)
    have "last (fs @ [openFont i]) \<noteq> None" using ne by simp
    from "1.IH"[OF True refl this rec] True
    obtain ys where ys: "fs' = (fs @ [openFont i]) @ ys" "None \<notin> set ys"
      "length ys = nat (32 - (i + 1))"
      by auto
    have "fs' = fs @ (openFont i # ys)" using ys(1) by simp
    moreover have "None \<notin> set (openFont i # ys)" using ys(2) ne by auto
    moreover have "length (openFont i # ys) = nat (32 - i)" using ys(3) True by simp
    ultimately show ?thesis by blast
  qed
qed

lemma loadFonts_table:
  assumes "loadFonts openFont = Inr fs"
  shows "length fs = 32" and "fs ! 0 = None" and "\<And>k. 1 \<le> k \<Longrightarrow> k < 32 \<Longrightarrow> fs ! k \<noteq> None"
proof -
  obtain ys where ys: "fs = [None] @ ys" "None \<notin> set ys" "length ys = 31"
    using fontLoop_result[of openFont 1 "[None]" fs] assms by (auto simp: loadFonts_def)
  show "length fs = 32" using ys by simp
  show "fs ! 0 = None" using ys by simp
  show "fs ! k \<noteq> None" if "1 \<le> k" "k < 32" for k
  proof -
    have "fs ! k = ys ! (k - 1)" using that ys(1) by (simp add: nth_Cons')
    moreover have "ys ! (k - 1) \<in> set ys" using that ys(3) by simp
    ultimately show ?thesis using ys(2) by metis
  qed
qed

lemma sample_fonts_loaded: "loadFonts sample_openFont = Inr (fonts sample_scroll)"
  by (simp add: loadFonts_def sample_scroll_def sample_openFont_def fontLoop.simps)

text \<open>
  C7. For a record handled by the text interpreter of the side-scrolling display (the
  font table loaded, fewer than \<open>2^31\<close> lines on screen): when the first field is empty
  nothing changes; otherwise exactly one item is appended to \<open>lines\<close>, its text is the
  first field, and its size \<open>h\<close> satisfies \<open>4 \<le> h < 4 + m\<close>, where \<open>m\<close> is the value
  \<open>maxsize\<close> returns for the current number of lines, which lies in the set the policy
  has for that number.
\<close>

theorem text_record_appends_one_item:
  assumes "values \<noteq> []" and "length (fonts s) = 32" and "length (lines s) < 2 ^ 31"
  shows "(values ! 0 = [] \<longrightarrow> scroll_handleData values s = Inr s) \<and>
         (values ! 0 \<noteq> [] \<longrightarrow>
            (\<exists>l s' m n.
               scroll_handleData values s = Inr s' \<and> lines s' = lines s @ [l] \<and>
               content l = values ! 0 \<and>
               n = int (length (lines s)) \<and> m = fst (maxsize n (snd (rand s))) \<and>
               4 \<le> line_h l \<and> line_h l < 4 + m \<and>
               (n < 20 \<longrightarrow> m = 28) \<and>
               (20 \<le> n \<and> n < 25 \<longrightarrow> m \<in> {24, 28}) \<and>
               (25 \<le> n \<and> n < 30 \<longrightarrow> m \<in> {20, 28}) \<and>
               (30 \<le> n \<and> n < 50 \<longrightarrow> m \<in> {16, 24}) \<and>
               (50 \<le> n \<and> n < 80 \<longrightarrow> m \<in> {12, 24}) \<and>
               (80 \<le> n \<and> n < 110 \<longrightarrow> m \<in> {8, 24}) \<and>
               (110 \<le> n \<and> n < 200 \<longrightarrow> m \<in> {4, 24}) \<and>
               (200 \<le> n \<longrightarrow> m \<in> {1, 24})))"
proof (intro conjI impI)
  assume "values ! 0 = []"
  then show "scroll_handleData values s = Inr s"
    using assms(1) by (simp add: scroll_handleData_def)
next
  assume ne: "values ! 0 \<noteq> []"
  define n where "n = int (length (lines s))"
  define m where "m = fst (maxsize n (snd (rand s)))"
  have cnt: "sint (word_of_nat (length (lines s)) :: 32 word) = n"
    using assms(3) by (simp add: n_def sint_count)
  from scroll_handleData_item[OF assms(1) ne assms(2)]
  obtain l s' where it: "scroll_handleData values s = Inr s'" "lines s' = lines s @ [l]"
      "content l = values ! 0" "line_h l = fst (rand s) mod m + 4"
    and bounds: "4 \<le> fst (rand s) mod m + 4" "fst (rand s) mod m + 4 < 4 + m"
    unfolding cnt m_def by blast
  have b: "4 \<le> line_h l" "line_h l < 4 + m" using it(4) bounds by simp_all
  have t1: "n < 20 \<longrightarrow> m = 28" unfolding m_def by (simp add: maxsize_lt20)
  have t2: "20 \<le> n \<and> n < 25 \<longrightarrow> m \<in> {24, 28}" unfolding m_def using maxsize_lt25 by blast
  have t3: "25 \<le> n \<and> n < 30 \<longrightarrow> m \<in> {20, 28}" unfolding m_def using maxsize_lt30 by blast
  have t4: "30 \<le> n \<and> n < 50 \<longrightarrow> m \<in> {16, 24}" unfolding m_def using maxsize_lt50 by blast
  have t5: "50 \<le> n \<and> n < 80 \<longrightarrow> m \<in> {12, 24}" unfolding m_def using maxsize_lt80 by blast
  have t6: "80 \<le> n \<and> n < 110 \<longrightarrow> m \<in> {8, 24}" unfolding m_def using maxsize_lt110 by blast
  have t7: "110 \<le> n \<and> n < 200 \<longrightarrow> m \<in> {4, 24}" unfolding m_def using maxsize_lt200 by blast
  have t8: "200 \<le> n \<longrightarrow> m \<in> {1, 24}" unfolding m_def using maxsize_ge200 by blast
  show "\<exists>l s' m n.
          scroll_handleData values s = Inr s' \<and> lines s' = lines s @ [l] \<and>
          content l = values ! 0 \<and>
          n = int (length (lines s)) \<and> m = fst (maxsize n (snd (rand s))) \<and>
          4 \<le> line_h l \<and> line_h l < 4 + m \<and>
          (n < 20 \<longrightarrow> m = 28) \<and>
          (20 \<le> n \<and> n < 25 \<longrightarrow> m \<in> {24, 28}) \<and>
          (25 \<le> n \<and> n < 30 \<longrightarrow> m \<in> {20, 28}) \<and>
          (30 \<le> n \<and> n < 50 \<longrightarrow> m \<in> {16, 24}) \<and>
          (50 \<le> n \<and> n < 80 \<longrightarrow> m \<in> {12, 24}) \<and>
          (80 \<le> n \<and> n < 110 \<longrightarrow> m \<in> {8, 24}) \<and>
          (110 \<le> n \<and> n < 200 \<longrightarrow> m \<in> {4, 24}) \<and>
          (200 \<le> n \<longrightarrow> m \<in> {1, 24})"
    apply (rule exI[of _ l], rule exI[of _ s'], rule exI[of _ m], rule exI[of _ n])
    using it(1,2,3) b t1 t2 t3 t4 t5 t6 t7 t8 n_def m_def by blast
qed

theorem text_record_appends_one_item_witness:
  "[''hello''] \<noteq> [] \<and> length (fonts sample_scroll) = 32 \<and>
   length (lines sample_scroll) < 2 ^ 31 \<and> [''hello''] ! 0 \<noteq> [] \<and> [[], ''x''] ! 0 = [] \<and>
   scroll_handleData [[], ''x''] sample_scroll = Inr sample_scroll \<and>
   (\<exists>l s'. scroll_handleData [''hello''] sample_scroll = Inr s' \<and>
      lines s' = lines sample_scroll @ [l] \<and> content l = ''hello'' \<and>
      4 \<le> line_h l \<and> line_h l < 4 + 28)"
proof -
  have h: "[''hello''] \<noteq> []" "[[], ''x''] \<noteq> ([] :: string list)"
    "length (fonts sample_scroll) = 32" "length (lines sample_scroll) < 2 ^ 31"
    by (simp_all add: sample_scroll_def)
  have m: "fst (maxsize (int (length (lines sample_scroll))) (snd (rand sample_scroll))) = 28"
    by (simp add: sample_scroll_def maxsize_def rand_def)
  show ?thesis
    using text_record_appends_one_item[OF h(1) h(3) h(4)]
      text_record_appends_one_item[OF h(2) h(3) h(4)] h m
    by auto
qed

text \<open>
  C10. Whatever the number of lines, \<open>maxsize\<close> returns one of 1, 4, 8, 12, 16, 20, 24
  and 28. So, with the font table that \<open>main\<close> builds, a record with a non-empty first
  field gives a new item whose height is between 4 and 31, and the font looked up for it
  is inside the 32 entries of the table and is not the null entry.
\<close>

theorem maxsize_range_font_lookup_safe:
  "fst (maxsize n s) \<in> {1, 4, 8, 12, 16, 20, 24, 28} \<and>
   (loadFonts openFont = Inr (fonts s) \<and> values \<noteq> [] \<and> values ! 0 \<noteq> [] \<longrightarrow>
      (\<exists>l s'. scroll_handleData values s = Inr s' \<and> lines s' = lines s @ [l] \<and>
         4 \<le> line_h l \<and> line_h l \<le> 31 \<and> length (fonts s) = 32 \<and>
         nat (line_h l) < length (fonts s) \<and>
         line_font l = fonts s ! nat (line_h l) \<and> line_font l \<noteq> None))"
proof (intro conjI impI)
  show "fst (maxsize n s) \<in> {1, 4, 8, 12, 16, 20, 24, 28}" by (rule maxsize_values)
next
  assume a: "loadFonts openFont = Inr (fonts s) \<and> values \<noteq> [] \<and> values ! 0 \<noteq> []"
  then have len: "length (fonts s) = 32" using loadFonts_table(1) by blast
  from a have v: "values \<noteq> []" "values ! 0 \<noteq> []" by simp_all
  from scroll_handleData_item[OF v len]
  obtain l s' where it: "scroll_handleData values s = Inr s'" "lines s' = lines s @ [l]"
      "line_font l = fonts s ! nat (line_h l)" "4 \<le> line_h l" "line_h l \<le> 31"
    by metis
  have "1 \<le> nat (line_h l)" "nat (line_h l) < 32" using it(4,5) by simp_all
  then have "fonts s ! nat (line_h l) \<noteq> None"
    using loadFonts_table(3) a by blast
  then show "\<exists>l s'. scroll_handleData values s = Inr s' \<and> lines s' = lines s @ [l] \<and>
         4 \<le> line_h l \<and> line_h l \<le> 31 \<and> length (fonts s) = 32 \<and>
         nat (line_h l) < length (fonts s) \<and>
         line_font l = fonts s ! nat (line_h l) \<and> line_font l \<noteq> None"
    using it len by auto
qed

theorem maxsize_range_font_lookup_safe_witness:
  "loadFonts sample_openFont = Inr (fonts sample_scroll) \<and> [''hello''] \<noteq> [] \<and>
   [''hello''] ! 0 \<noteq> [] \<and>
   (\<exists>l s'. scroll_handleData [''hello''] sample_scroll = Inr s' \<and>
      lines s' = lines sample_scroll @ [l] \<and> 4 \<le> line_h l \<and> line_h l \<le> 31 \<and>
      line_font l = fonts sample_scroll ! nat (line_h l) \<and> line_font l \<noteq> None)"
proof -
  have h: "loadFonts sample_openFont = Inr (fonts sample_scroll) \<and> [''hello''] \<noteq> [] \<and>
      [''hello''] ! 0 \<noteq> []"
    using sample_fonts_loaded by simp
  show ?thesis
    using maxsize_range_font_lookup_safe[of 0 sample_scroll sample_openFont "[''hello'']"] h
    by blast
qed


subsection \<open>Line extraction does not depend on how the bytes arrive\<close>

text \<open>
  The three line handlers neither read nor write \<open>buf\<close>: run on a connection whose
  buffer was replaced, they do the same and leave the replacement in place.
\<close>

lemma geo_handleLine_buf:
  "geo_handleLine atof (g, c\<lparr>buf := b\<rparr>) l =
     (case geo_handleLine atof (g, c) l of
        Inl e \<Rightarrow> Inl e
      | Inr (g', c') \<Rightarrow> Inr (g', c'\<lparr>buf := b\<rparr>))"
  by (cases "state c")
     (simp_all add: geo_handleLine_def geo_handleHeader_def Let_def
        split: option.split sum.split)

lemma scroll_handleLine_buf:
  "scroll_handleLine (g, c\<lparr>buf := b\<rparr>) l =
     (case scroll_handleLine (g, c) l of
        Inl e \<Rightarrow> Inl e
      | Inr (g', c') \<Rightarrow> Inr (g', c'\<lparr>buf := b\<rparr>))"
  by (cases "state c")
     (simp_all add: scroll_handleLine_def scroll_handleHeader_def Let_def
        split: option.split sum.split scroll_interpreter.split)

lemma traceLine_buf:
  "traceLine (g, c\<lparr>buf := b\<rparr>) l =
     (case traceLine (g, c) l of
        Inl e \<Rightarrow> Inl e
      | Inr (g', c') \<Rightarrow> Inr (g', c'\<lparr>buf := b\<rparr>))"
  by (simp add: traceLine_def)

lemma first_LF_less:
  "LF \<in> set b \<Longrightarrow> length (takeWhile (\<lambda>ch. ch \<noteq> LF) b) < length b"
  by (induction b) auto

lemma inputLoop_done:
  "LF \<notin> set (buf c) \<Longrightarrow> inputLoop hl (g, c) = Inr (g, c)"
  by (simp add: inputLoop.simps)

lemma inputLoop_step:
  assumes "LF \<in> set b" and "nl = length (takeWhile (\<lambda>ch. ch \<noteq> LF) b)"
    and "e = (if 0 < nl \<and> b ! (nl - 1) = CR then nl - 1 else nl)" and "buf c = b"
  shows "inputLoop hl (g, c) =
           (case hl (g, c) (take e b) of
              Inl err \<Rightarrow> Inl err
            | Inr (g', c') \<Rightarrow> inputLoop hl (g', c'\<lparr>buf := drop (Suc nl) b\<rparr>))"
  using assms(1) unfolding assms(2,3) assms(4)[symmetric]
  by (simp add: inputLoop.simps[of hl g c] Let_def)

lemma inputLoop_no_LF:
  "inputLoop hl gc = Inr (g', c') \<Longrightarrow> LF \<notin> set (buf c')"
proof (induction hl gc arbitrary: g' c' rule: inputLoop.induct)
  case (1 hl g c)
  show ?case
  proof (cases "LF \<in> set (buf c)")
    case False
    with "1.prems" show ?thesis by (simp add: inputLoop_done)
  next
    case True
    define nl where "nl = length (takeWhile (\<lambda>ch. ch \<noteq> LF) (buf c))"
    define e where "e = (if 0 < nl \<and> buf c ! (nl - 1) = CR then nl - 1 else nl)"
    have step: "inputLoop hl (g, c) =
        (case hl (g, c) (take e (buf c)) of
           Inl err \<Rightarrow> Inl err
         | Inr (g1, c1) \<Rightarrow> inputLoop hl (g1, c1\<lparr>buf := drop (Suc nl) (buf c)\<rparr>))"
      by (rule inputLoop_step[OF True nl_def e_def refl])
    from "1.prems" step obtain g1 c1 where
      h: "hl (g, c) (take e (buf c)) = Inr (g1, c1)"
      and r: "inputLoop hl (g1, c1\<lparr>buf := drop (Suc nl) (buf c)\<rparr>) = Inr (g', c')"
      by (auto split: sum.splits)
    have nn: "\<not> LF \<notin> set (buf c)" using True by simp
    from "1.IH"[OF nn nl_def e_def h refl r] show ?thesis .
  qed
qed

lemma inputLoop_append:
  assumes ag: "\<And>g c b l. hl (g, c\<lparr>buf := b\<rparr>) l =
     (case hl (g, c) l of Inl e \<Rightarrow> Inl e | Inr (g', c') \<Rightarrow> Inr (g', c'\<lparr>buf := b\<rparr>))"
  shows "inputLoop hl (g, c\<lparr>buf := b @ x\<rparr>) =
     (case inputLoop hl (g, c\<lparr>buf := b\<rparr>) of
        Inl e \<Rightarrow> Inl e
      | Inr (g', c') \<Rightarrow> inputLoop hl (g', c'\<lparr>buf := buf c' @ x\<rparr>))"
proof (induction "length b" arbitrary: b g c rule: less_induct)
  case less
  show ?case
  proof (cases "LF \<in> set b")
    case False
    then show ?thesis by (simp add: inputLoop_done)
  next
    case True
    define nl where "nl = length (takeWhile (\<lambda>ch. ch \<noteq> LF) b)"
    have tw: "takeWhile (\<lambda>ch. ch \<noteq> LF) (b @ x) = takeWhile (\<lambda>ch. ch \<noteq> LF) b"
      using True by simp
    have lt: "nl < length b"
      unfolding nl_def using True by (rule first_LF_less)
    define e where "e = (if 0 < nl \<and> b ! (nl - 1) = CR then nl - 1 else nl)"
    have ele: "e \<le> length b" using lt by (auto simp: e_def)
    have "nl - 1 < length b" using lt by simp
    then have e': "e = (if 0 < nl \<and> (b @ x) ! (nl - 1) = CR then nl - 1 else nl)"
      by (simp add: e_def nth_append)
    have tk: "take e (b @ x) = take e b" using ele by simp
    have dr: "drop (Suc nl) (b @ x) = drop (Suc nl) b @ x" using lt by simp
    have s1: "inputLoop hl (g, c\<lparr>buf := b\<rparr>) =
        (case hl (g, c\<lparr>buf := b\<rparr>) (take e b) of
           Inl err \<Rightarrow> Inl err
         | Inr (g1, c1) \<Rightarrow> inputLoop hl (g1, c1\<lparr>buf := drop (Suc nl) b\<rparr>))"
      by (rule inputLoop_step[OF True nl_def e_def]) simp
    have inx: "LF \<in> set (b @ x)" using True by simp
    have nlx: "nl = length (takeWhile (\<lambda>ch. ch \<noteq> LF) (b @ x))"
      using tw nl_def by simp
    have s2: "inputLoop hl (g, c\<lparr>buf := b @ x\<rparr>) =
        (case hl (g, c\<lparr>buf := b @ x\<rparr>) (take e b) of
           Inl err \<Rightarrow> Inl err
         | Inr (g1, c1) \<Rightarrow> inputLoop hl (g1, c1\<lparr>buf := drop (Suc nl) b @ x\<rparr>))"
      using inputLoop_step[OF inx nlx e', where c = "c\<lparr>buf := b @ x\<rparr>" and hl = hl and g = g]
      unfolding tk dr by simp
    show ?thesis
    proof (cases "hl (g, c) (take e b)")
      case (Inl err)
      then have "hl (g, c\<lparr>buf := b @ x\<rparr>) (take e b) = Inl err"
        and "hl (g, c\<lparr>buf := b\<rparr>) (take e b) = Inl err"
        by (simp_all add: ag[where g = g and c = c])
      then show ?thesis by (simp add: s1 s2)
    next
      case (Inr gc1)
      obtain g1 c1 where gc1: "gc1 = (g1, c1)" by (cases gc1)
      have shorter: "length (drop (Suc nl) b) < length b" using lt by simp
      have hx: "hl (g, c\<lparr>buf := b @ x\<rparr>) (take e b) = Inr (g1, c1\<lparr>buf := b @ x\<rparr>)"
        and hb: "hl (g, c\<lparr>buf := b\<rparr>) (take e b) = Inr (g1, c1\<lparr>buf := b\<rparr>)"
        using Inr gc1 by (simp_all add: ag[where g = g and c = c])
      have ih: "inputLoop hl (g1, c1\<lparr>buf := drop (Suc nl) b @ x\<rparr>) =
          (case inputLoop hl (g1, c1\<lparr>buf := drop (Suc nl) b\<rparr>) of
             Inl e \<Rightarrow> Inl e
           | Inr (g', c') \<Rightarrow> inputLoop hl (g', c'\<lparr>buf := buf c' @ x\<rparr>))"
        by (rule less[OF shorter])
      show ?thesis
        by (simp add: s1 s2 hx hb ih)
    qed
  qed
qed

lemma feedChunks_concat:
  assumes ag: "\<And>g c b l. hl (g, c\<lparr>buf := b\<rparr>) l =
     (case hl (g, c) l of Inl e \<Rightarrow> Inl e | Inr (g', c') \<Rightarrow> Inr (g', c'\<lparr>buf := b\<rparr>))"
  shows "LF \<notin> set (buf c) \<Longrightarrow>
     feedChunks hl (g, c) chunks = handleInput hl (g, c) (concat chunks)"
proof (induction chunks arbitrary: g c)
  case Nil
  then show ?case by (simp add: handleInput_def inputLoop_done)
next
  case (Cons x xs)
  have sp: "handleInput hl (g, c) (x @ concat xs) =
      (case handleInput hl (g, c) x of
         Inl e \<Rightarrow> Inl e
       | Inr (g', c') \<Rightarrow> handleInput hl (g', c') (concat xs))"
    using inputLoop_append[where hl = hl and g = g and c = c and b = "buf c @ x"
        and x = "concat xs", OF ag]
    by (simp add: handleInput_def split: sum.split)
  show ?case
  proof (cases "handleInput hl (g, c) x")
    case (Inl e)
    then show ?thesis by (simp add: sp)
  next
    case (Inr gc1)
    obtain g1 c1 where gc1: "gc1 = (g1, c1)" by (cases gc1)
    have "LF \<notin> set (buf c1)"
      using Inr gc1 inputLoop_no_LF[where hl = hl and g' = g1 and c' = c1]
      by (simp add: handleInput_def)
    from Cons.IH[OF this, of g1] Inr gc1 show ?thesis by (simp add: sp)
  qed
qed

text \<open>
  C3. On a connection whose buffer holds no complete line, feeding a byte stream chunk
  by chunk through \<open>handleInput\<close> gives the same result as feeding it in one call: the
  same calls of \<open>handleLine\<close> in the same order, hence the same state and globals, the
  same buffered remainder, and the same failure if \<open>handleLine\<close> raises one. This holds
  for the \<open>handleLine\<close> of both programs and for the observer \<open>traceLine\<close>, whose result
  is the sequence of lines itself.
\<close>

theorem lines_independent_of_read_boundaries:
  "(LF \<notin> set (buf cg) \<longrightarrow>
      feedChunks (geo_handleLine atof) (gg, cg) chunks =
        handleInput (geo_handleLine atof) (gg, cg) (concat chunks)) \<and>
   (LF \<notin> set (buf cs) \<longrightarrow>
      feedChunks scroll_handleLine (gs, cs) chunks =
        handleInput scroll_handleLine (gs, cs) (concat chunks)) \<and>
   (LF \<notin> set (buf ct) \<longrightarrow>
      feedChunks traceLine (seen, ct) chunks =
        handleInput traceLine (seen, ct) (concat chunks))"
  using feedChunks_concat[where hl = "geo_handleLine atof", OF geo_handleLine_buf]
    feedChunks_concat[where hl = scroll_handleLine, OF scroll_handleLine_buf]
    feedChunks_concat[where hl = traceLine, OF traceLine_buf]
  by blast

theorem lines_independent_of_read_boundaries_witness:
  "LF \<notin> set (buf (mkConnectionState 5 :: geo_interpreter ConnectionState)) \<and>
   LF \<notin> set (buf (mkConnectionState 5 :: scroll_interpreter ConnectionState)) \<and>
   feedChunks (geo_handleLine atof_decimal) (sample_geo, mkConnectionState 5)
       [''GE'', ''T'' @ [CR, LF] @ ''Content-type: x-poserspace/geo'' @ [CR],
        [LF, CR, LF] @ ''12.5'' @ [TAB], ''-3.25'' @ [LF] @ ''7'']
     = handleInput (geo_handleLine atof_decimal) (sample_geo, mkConnectionState 5)
         (''GET'' @ [CR, LF] @ ''Content-type: x-poserspace/geo'' @ [CR, LF, CR, LF] @
          ''12.5'' @ [TAB] @ ''-3.25'' @ [LF] @ ''7'') \<and>
   feedChunks scroll_handleLine (sample_scroll, mkConnectionState 5)
       [''ACT'', ''ION'' @ [LF] @ ''Content-type: x-poserspace/text'',
        [LF, LF] @ ''hel'', ''lo'' @ [CR], [LF] @ ''wor'']
     = handleInput scroll_handleLine (sample_scroll, mkConnectionState 5)
         (''ACTION'' @ [LF] @ ''Content-type: x-poserspace/text'' @ [LF, LF] @
          ''hello'' @ [CR, LF] @ ''wor'') \<and>
   feedChunks traceLine ([], mkConnectionState 5 :: scroll_interpreter ConnectionState)
       [''ACT'', ''ION'' @ [LF] @ ''Content-type: x-poserspace/text'',
        [LF, LF] @ ''hel'', ''lo'' @ [CR], [LF] @ ''wor'']
     = Inr ([''ACTION'', ''Content-type: x-poserspace/text'', [], ''hello''],
            \<lparr>fd = 5, buf = ''wor'', state = ACTION, interpreter = None\<rparr>) \<and>
   handleInput traceLine ([], mkConnectionState 5 :: scroll_interpreter ConnectionState)
       (''ACTION'' @ [LF] @ ''Content-type: x-poserspace/text'' @ [LF, LF] @
        ''hello'' @ [CR, LF] @ ''wor'')
     = Inr ([''ACTION'', ''Content-type: x-poserspace/text'', [], ''hello''],
            \<lparr>fd = 5, buf = ''wor'', state = ACTION, interpreter = None\<rparr>)"
proof -
  have t: "handleInput traceLine ([], mkConnectionState 5 :: scroll_interpreter ConnectionState)
       (''ACTION'' @ [LF] @ ''Content-type: x-poserspace/text'' @ [LF, LF] @
        ''hello'' @ [CR, LF] @ ''wor'')
     = Inr ([''ACTION'', ''Content-type: x-poserspace/text'', [], ''hello''],
            \<lparr>fd = 5, buf = ''wor'', state = ACTION, interpreter = None\<rparr>)"
    by (simp add: handleInput_def inputLoop.simps traceLine_def mkConnectionState_def
          LF_def CR_def Let_def)
  have n: "LF \<notin> set (buf (mkConnectionState 5 :: geo_interpreter ConnectionState))"
    "LF \<notin> set (buf (mkConnectionState 5 :: scroll_interpreter ConnectionState))"
    by (simp_all add: mkConnectionState_def)
  have c1: "concat [''GE'', ''T'' @ [CR, LF] @ ''Content-type: x-poserspace/geo'' @ [CR],
        [LF, CR, LF] @ ''12.5'' @ [TAB], ''-3.25'' @ [LF] @ ''7'']
     = ''GET'' @ [CR, LF] @ ''Content-type: x-poserspace/geo'' @ [CR, LF, CR, LF] @
          ''12.5'' @ [TAB] @ ''-3.25'' @ [LF] @ ''7''"
    by simp
  have c2: "concat [''ACT'', ''ION'' @ [LF] @ ''Content-type: x-poserspace/text'',
        [LF, LF] @ ''hel'', ''lo'' @ [CR], [LF] @ ''wor'']
     = ''ACTION'' @ [LF] @ ''Content-type: x-poserspace/text'' @ [LF, LF] @
          ''hello'' @ [CR, LF] @ ''wor''"
    by simp
  note T1 = lines_independent_of_read_boundaries[where cg = "mkConnectionState 5"
        and cs = "mkConnectionState 5" and ct = "mkConnectionState 5"
        and atof = atof_decimal and gg = sample_geo and gs = sample_scroll and seen = "[]"
        and chunks = "[''ACT'', ''ION'' @ [LF] @ ''Content-type: x-poserspace/text'',
        [LF, LF] @ ''hel'', ''lo'' @ [CR], [LF] @ ''wor'']"]
  note T2 = lines_independent_of_read_boundaries[where cg = "mkConnectionState 5"
        and cs = "mkConnectionState 5" and ct = "mkConnectionState 5"
        and atof = atof_decimal and gg = sample_geo and gs = sample_scroll and seen = "[]"
        and chunks = "[''GE'', ''T'' @ [CR, LF] @ ''Content-type: x-poserspace/geo'' @ [CR],
        [LF, CR, LF] @ ''12.5'' @ [TAB], ''-3.25'' @ [LF] @ ''7'']"]
  have e1: "feedChunks (geo_handleLine atof_decimal) (sample_geo, mkConnectionState 5)
       [''GE'', ''T'' @ [CR, LF] @ ''Content-type: x-poserspace/geo'' @ [CR],
        [LF, CR, LF] @ ''12.5'' @ [TAB], ''-3.25'' @ [LF] @ ''7'']
     = handleInput (geo_handleLine atof_decimal) (sample_geo, mkConnectionState 5)
         (concat [''GE'', ''T'' @ [CR, LF] @ ''Content-type: x-poserspace/geo'' @ [CR],
        [LF, CR, LF] @ ''12.5'' @ [TAB], ''-3.25'' @ [LF] @ ''7''])"
    using T2 n(1) by blast
  have e2: "feedChunks scroll_handleLine (sample_scroll, mkConnectionState 5)
       [''ACT'', ''ION'' @ [LF] @ ''Content-type: x-poserspace/text'',
        [LF, LF] @ ''hel'', ''lo'' @ [CR], [LF] @ ''wor'']
     = handleInput scroll_handleLine (sample_scroll, mkConnectionState 5)
         (concat [''ACT'', ''ION'' @ [LF] @ ''Content-type: x-poserspace/text'',
        [LF, LF] @ ''hel'', ''lo'' @ [CR], [LF] @ ''wor''])"
    using T1 n(2) by blast
  have e3: "feedChunks traceLine ([], mkConnectionState 5 :: scroll_interpreter ConnectionState)
       [''ACT'', ''ION'' @ [LF] @ ''Content-type: x-poserspace/text'',
        [LF, LF] @ ''hel'', ''lo'' @ [CR], [LF] @ ''wor'']
     = handleInput traceLine ([], mkConnectionState 5)
         (concat [''ACT'', ''ION'' @ [LF] @ ''Content-type: x-poserspace/text'',
        [LF, LF] @ ''hel'', ''lo'' @ [CR], [LF] @ ''wor''])"
    using T1 n(2) by blast
  show ?thesis
    apply (intro conjI)
         apply (rule n(1))
        apply (rule n(2))
       apply (rule e1[unfolded c1])
      apply (rule e2[unfolded c2])
     apply (rule e3[unfolded c2 t])
    apply (rule t)
    done
qed

subsection \<open>The parser's state machine\<close>

lemma geo_handleLine_ACTION:
  "state c = ACTION \<Longrightarrow> geo_handleLine atof (g, c) l = Inr (g, c\<lparr>state := HEADER\<rparr>)"
  by (simp add: geo_handleLine_def)

lemma scroll_handleLine_ACTION:
  "state c = ACTION \<Longrightarrow> scroll_handleLine (g, c) l = Inr (g, c\<lparr>state := HEADER\<rparr>)"
  by (simp add: scroll_handleLine_def)

lemma geo_handleLine_HEADER:
  "state c = HEADER \<Longrightarrow> geo_handleLine atof (g, c) l = Inr (g', c') \<Longrightarrow>
     (l = [] \<and> c' = c\<lparr>state := DATA\<rparr>) \<or> (l \<noteq> [] \<and> COLON \<in> set l \<and> state c' = HEADER)"
  by (auto simp: geo_handleLine_def geo_handleHeader_def Let_def split: if_splits)

lemma scroll_handleLine_HEADER:
  "state c = HEADER \<Longrightarrow> scroll_handleLine (g, c) l = Inr (g', c') \<Longrightarrow>
     (l = [] \<and> c' = c\<lparr>state := DATA\<rparr>) \<or> (l \<noteq> [] \<and> COLON \<in> set l \<and> state c' = HEADER)"
  by (auto simp: scroll_handleLine_def scroll_handleHeader_def Let_def split: if_splits)

lemma geo_handleLine_DATA:
  "state c = DATA \<Longrightarrow> geo_handleLine atof (g, c) l = Inr (g', c') \<Longrightarrow> c' = c"
  by (auto simp: geo_handleLine_def Let_def split: option.splits sum.splits if_splits)

lemma scroll_handleLine_DATA:
  "state c = DATA \<Longrightarrow> scroll_handleLine (g, c) l = Inr (g', c') \<Longrightarrow> c' = c"
  by (auto simp: scroll_handleLine_def Let_def
        split: option.splits sum.splits scroll_interpreter.splits)

text \<open>Both facts for any line handler with these three kinds of step.\<close>

lemma runLines_DATA_fixed:
  assumes D: "\<And>g c l g' c'. state c = DATA \<Longrightarrow> hl (g, c) l = Inr (g', c') \<Longrightarrow> c' = c"
  shows "runLines hl (g, c) ls = Inr (g', c') \<Longrightarrow> state c = DATA \<Longrightarrow> c' = c"
proof (induction ls arbitrary: g c)
  case Nil
  then show ?case by simp
next
  case (Cons l ls)
  from Cons.prems(1) obtain g1 c1 where
    h: "hl (g, c) l = Inr (g1, c1)" and r: "runLines hl (g1, c1) ls = Inr (g', c')"
    by (auto split: sum.splits)
  have "c1 = c" using D[OF Cons.prems(2) h] .
  with Cons.IH[OF r] Cons.prems(2) show ?case by simp
qed

lemma runLines_HEADER_to_DATA:
  assumes H: "\<And>g c l g' c'. state c = HEADER \<Longrightarrow> hl (g, c) l = Inr (g', c') \<Longrightarrow>
      (l = [] \<and> c' = c\<lparr>state := DATA\<rparr>) \<or> (l \<noteq> [] \<and> COLON \<in> set l \<and> state c' = HEADER)"
  shows "runLines hl (g, c) ls = Inr (g', c') \<Longrightarrow> state c = HEADER \<Longrightarrow> state c' = DATA \<Longrightarrow>
     \<exists>hs rest. ls = hs @ [] # rest \<and> (\<forall>x\<in>set hs. x \<noteq> [] \<and> COLON \<in> set x)"
proof (induction ls arbitrary: g c)
  case Nil
  then show ?case by simp
next
  case (Cons l ls)
  from Cons.prems(1) obtain g1 c1 where
    h: "hl (g, c) l = Inr (g1, c1)" and r: "runLines hl (g1, c1) ls = Inr (g', c')"
    by (auto split: sum.splits)
  show ?case
  proof (cases "l = []")
    case True
    then have "l # ls = [] @ [] # ls \<and> (\<forall>x\<in>set ([] :: string list). x \<noteq> [] \<and> COLON \<in> set x)"
      by simp
    then show ?thesis by blast
  next
    case False
    with H[OF Cons.prems(2) h] have l: "COLON \<in> set l" and st: "state c1 = HEADER" by auto
    from Cons.IH[OF r st Cons.prems(3)] obtain hs rest where
      hs: "ls = hs @ [] # rest" "\<forall>x\<in>set hs. x \<noteq> [] \<and> COLON \<in> set x" by blast
    have "l # ls = (l # hs) @ [] # rest \<and> (\<forall>x\<in>set (l # hs). x \<noteq> [] \<and> COLON \<in> set x)"
      using hs False l by simp
    then show ?thesis by blast
  qed
qed

lemma runLines_fresh_to_DATA:
  assumes A: "\<And>g c l. state c = ACTION \<Longrightarrow> hl (g, c) l = Inr (g, c\<lparr>state := HEADER\<rparr>)"
    and H: "\<And>g c l g' c'. state c = HEADER \<Longrightarrow> hl (g, c) l = Inr (g', c') \<Longrightarrow>
      (l = [] \<and> c' = c\<lparr>state := DATA\<rparr>) \<or> (l \<noteq> [] \<and> COLON \<in> set l \<and> state c' = HEADER)"
    and run: "runLines hl (g, mkConnectionState h) ls = Inr (g', c')" and d: "state c' = DATA"
  shows "\<exists>a hs rest. ls = a # hs @ [] # rest \<and> (\<forall>x\<in>set hs. x \<noteq> [] \<and> COLON \<in> set x)"
proof (cases ls)
  case Nil
  with run d show ?thesis by (auto simp: mkConnectionState_def)
next
  case (Cons a ls')
  have "state (mkConnectionState h :: 'b ConnectionState) = ACTION"
    by (simp add: mkConnectionState_def)
  from A[OF this] run Cons
  have r: "runLines hl (g, (mkConnectionState h)\<lparr>state := HEADER\<rparr>) ls' = Inr (g', c')"
    by simp
  from runLines_HEADER_to_DATA[where hl = hl, OF H r _ d] Cons show ?thesis by simp
qed

text \<open>
  C9. The field \<open>interpreter\<close> holds one optional interpreter. In both programs, over
  every sequence of lines that \<open>handleLine\<close> accepts:
  \<^item> a step taken outside the state \<open>HEADER\<close> leaves the bound interpreter as it was;
  \<^item> once the state is \<open>DATA\<close> the state and the bound interpreter stay as they are;
  \<^item> a fresh connection reaches \<open>DATA\<close> only after one action line, then header lines
    that are not empty, then an empty line;
  \<^item> a step taken outside the state \<open>DATA\<close> leaves the globals as they were: no record
    is handed to an interpreter before \<open>DATA\<close>.
\<close>

theorem parser_state_machine_invariant:
  "(geo_handleLine atof (g1, c1) l1 = Inr (g1', c1') \<and> state c1 \<noteq> HEADER \<longrightarrow>
      interpreter c1' = interpreter c1) \<and>
   (scroll_handleLine (g2, c2) l2 = Inr (g2', c2') \<and> state c2 \<noteq> HEADER \<longrightarrow>
      interpreter c2' = interpreter c2) \<and>
   (runLines (geo_handleLine atof) (g3, c3) ls3 = Inr (g3', c3') \<and> state c3 = DATA \<longrightarrow>
      state c3' = DATA \<and> interpreter c3' = interpreter c3) \<and>
   (runLines scroll_handleLine (g4, c4) ls4 = Inr (g4', c4') \<and> state c4 = DATA \<longrightarrow>
      state c4' = DATA \<and> interpreter c4' = interpreter c4) \<and>
   (runLines (geo_handleLine atof) (g5, mkConnectionState h5) ls5 = Inr (g5', c5') \<and>
      state c5' = DATA \<longrightarrow>
      (\<exists>a hs rest. ls5 = a # hs @ [] # rest \<and> (\<forall>x\<in>set hs. x \<noteq> []))) \<and>
   (runLines scroll_handleLine (g6, mkConnectionState h6) ls6 = Inr (g6', c6') \<and>
      state c6' = DATA \<longrightarrow>
      (\<exists>a hs rest. ls6 = a # hs @ [] # rest \<and> (\<forall>x\<in>set hs. x \<noteq> []))) \<and>
   (geo_handleLine atof (g7, c7) l7 = Inr (g7', c7') \<and> state c7 \<noteq> DATA \<longrightarrow> g7' = g7) \<and>
   (scroll_handleLine (g8, c8) l8 = Inr (g8', c8') \<and> state c8 \<noteq> DATA \<longrightarrow> g8' = g8)"
proof -
  have p1: "geo_handleLine atof (g1, c1) l1 = Inr (g1', c1') \<and> state c1 \<noteq> HEADER \<longrightarrow>
      interpreter c1' = interpreter c1"
  proof
    assume a: "geo_handleLine atof (g1, c1) l1 = Inr (g1', c1') \<and> state c1 \<noteq> HEADER"
    show "interpreter c1' = interpreter c1"
    proof (cases "state c1")
      case ACTION
      with a show ?thesis by (auto simp: geo_handleLine_ACTION)
    next
      case HEADER
      with a show ?thesis by simp
    next
      case DATA
      with a geo_handleLine_DATA[of c1 atof g1 l1 g1' c1'] show ?thesis by simp
    qed
  qed
  have p2: "scroll_handleLine (g2, c2) l2 = Inr (g2', c2') \<and> state c2 \<noteq> HEADER \<longrightarrow>
      interpreter c2' = interpreter c2"
  proof
    assume a: "scroll_handleLine (g2, c2) l2 = Inr (g2', c2') \<and> state c2 \<noteq> HEADER"
    show "interpreter c2' = interpreter c2"
    proof (cases "state c2")
      case ACTION
      with a show ?thesis by (auto simp: scroll_handleLine_ACTION)
    next
      case HEADER
      with a show ?thesis by simp
    next
      case DATA
      with a scroll_handleLine_DATA[of c2 g2 l2 g2' c2'] show ?thesis by simp
    qed
  qed
  have p3: "runLines (geo_handleLine atof) (g3, c3) ls3 = Inr (g3', c3') \<and> state c3 = DATA \<longrightarrow>
      state c3' = DATA \<and> interpreter c3' = interpreter c3"
  proof
    assume a: "runLines (geo_handleLine atof) (g3, c3) ls3 = Inr (g3', c3') \<and> state c3 = DATA"
    have "c3' = c3"
    proof (rule runLines_DATA_fixed[where hl = "geo_handleLine atof" and g = g3 and c = c3
          and ls = ls3 and g' = g3' and c' = c3'])
      show "\<And>g c l g' c'. state c = DATA \<Longrightarrow> geo_handleLine atof (g, c) l = Inr (g', c') \<Longrightarrow> c' = c"
        by (rule geo_handleLine_DATA)
      show "runLines (geo_handleLine atof) (g3, c3) ls3 = Inr (g3', c3')" using a by simp
      show "state c3 = DATA" using a by simp
    qed
    with a show "state c3' = DATA \<and> interpreter c3' = interpreter c3" by simp
  qed
  have p4: "runLines scroll_handleLine (g4, c4) ls4 = Inr (g4', c4') \<and> state c4 = DATA \<longrightarrow>
      state c4' = DATA \<and> interpreter c4' = interpreter c4"
  proof
    assume a: "runLines scroll_handleLine (g4, c4) ls4 = Inr (g4', c4') \<and> state c4 = DATA"
    have "c4' = c4"
    proof (rule runLines_DATA_fixed[where hl = scroll_handleLine and g = g4 and c = c4
          and ls = ls4 and g' = g4' and c' = c4'])
      show "\<And>g c l g' c'. state c = DATA \<Longrightarrow> scroll_handleLine (g, c) l = Inr (g', c') \<Longrightarrow> c' = c"
        by (rule scroll_handleLine_DATA)
      show "runLines scroll_handleLine (g4, c4) ls4 = Inr (g4', c4')" using a by simp
      show "state c4 = DATA" using a by simp
    qed
    with a show "state c4' = DATA \<and> interpreter c4' = interpreter c4" by simp
  qed
  have p5: "runLines (geo_handleLine atof) (g5, mkConnectionState h5) ls5 = Inr (g5', c5') \<and>
      state c5' = DATA \<longrightarrow>
      (\<exists>a hs rest. ls5 = a # hs @ [] # rest \<and> (\<forall>x\<in>set hs. x \<noteq> []))"
  proof
    assume a: "runLines (geo_handleLine atof) (g5, mkConnectionState h5) ls5 = Inr (g5', c5') \<and>
        state c5' = DATA"
    have "\<exists>a hs rest. ls5 = a # hs @ [] # rest \<and> (\<forall>x\<in>set hs. x \<noteq> [] \<and> COLON \<in> set x)"
    proof (rule runLines_fresh_to_DATA[where hl = "geo_handleLine atof" and g = g5 and h = h5
          and ls = ls5 and g' = g5' and c' = c5'])
      show "\<And>g c l. state c = ACTION \<Longrightarrow> geo_handleLine atof (g, c) l = Inr (g, c\<lparr>state := HEADER\<rparr>)"
        by (rule geo_handleLine_ACTION)
      show "\<And>g c l g' c'. state c = HEADER \<Longrightarrow> geo_handleLine atof (g, c) l = Inr (g', c') \<Longrightarrow>
        (l = [] \<and> c' = c\<lparr>state := DATA\<rparr>) \<or> (l \<noteq> [] \<and> COLON \<in> set l \<and> state c' = HEADER)"
        by (rule geo_handleLine_HEADER)
      show "runLines (geo_handleLine atof) (g5, mkConnectionState h5) ls5 = Inr (g5', c5')"
        using a by simp
      show "state c5' = DATA" using a by simp
    qed
    then show "\<exists>a hs rest. ls5 = a # hs @ [] # rest \<and> (\<forall>x\<in>set hs. x \<noteq> [])" by blast
  qed
  have p6: "runLines scroll_handleLine (g6, mkConnectionState h6) ls6 = Inr (g6', c6') \<and>
      state c6' = DATA \<longrightarrow>
      (\<exists>a hs rest. ls6 = a # hs @ [] # rest \<and> (\<forall>x\<in>set hs. x \<noteq> []))"
  proof
    assume a: "runLines scroll_handleLine (g6, mkConnectionState h6) ls6 = Inr (g6', c6') \<and>
        state c6' = DATA"
    have "\<exists>a hs rest. ls6 = a # hs @ [] # rest \<and> (\<forall>x\<in>set hs. x \<noteq> [] \<and> COLON \<in> set x)"
    proof (rule runLines_fresh_to_DATA[where hl = scroll_handleLine and g = g6 and h = h6
          and ls = ls6 and g' = g6' and c' = c6'])
      show "\<And>g c l. state c = ACTION \<Longrightarrow> scroll_handleLine (g, c) l = Inr (g, c\<lparr>state := HEADER\<rparr>)"
        by (rule scroll_handleLine_ACTION)
      show "\<And>g c l g' c'. state c = HEADER \<Longrightarrow> scroll_handleLine (g, c) l = Inr (g', c') \<Longrightarrow>
        (l = [] \<and> c' = c\<lparr>state := DATA\<rparr>) \<or> (l \<noteq> [] \<and> COLON \<in> set l \<and> state c' = HEADER)"
        by (rule scroll_handleLine_HEADER)
      show "runLines scroll_handleLine (g6, mkConnectionState h6) ls6 = Inr (g6', c6')"
        using a by simp
      show "state c6' = DATA" using a by simp
    qed
    then show "\<exists>a hs rest. ls6 = a # hs @ [] # rest \<and> (\<forall>x\<in>set hs. x \<noteq> [])" by blast
  qed
  have p7: "geo_handleLine atof (g7, c7) l7 = Inr (g7', c7') \<and> state c7 \<noteq> DATA \<longrightarrow> g7' = g7"
    by (cases "state c7") (auto simp: geo_handleLine_def Let_def split: if_splits)
  have p8: "scroll_handleLine (g8, c8) l8 = Inr (g8', c8') \<and> state c8 \<noteq> DATA \<longrightarrow> g8' = g8"
    by (cases "state c8") (auto simp: scroll_handleLine_def Let_def split: if_splits)
  show ?thesis
    apply (intro conjI)
           apply (rule p1)
          apply (rule p2)
         apply (rule p3)
        apply (rule p4)
       apply (rule p5)
      apply (rule p6)
     apply (rule p7)
    apply (rule p8)
    done
qed

theorem parser_state_machine_invariant_witness:
  "runLines scroll_handleLine (sample_scroll, mkConnectionState 5)
      [''GET'', ''Content-type: x-poserspace/text'', [], []]
     = Inr (sample_scroll,
            \<lparr>fd = 5, buf = [], state = DATA, interpreter = Some ScrollTextInterpreter\<rparr>) \<and>
   runLines (geo_handleLine atof_decimal) (sample_geo, mkConnectionState 5)
      [''GET'', ''Content-type: x-poserspace/geo'', []]
     = Inr (sample_geo,
            \<lparr>fd = 5, buf = [], state = DATA, interpreter = Some GeoInterpreter\<rparr>) \<and>
   (\<exists>a hs rest. [''GET'', ''Content-type: x-poserspace/text'', [], []] = a # hs @ [] # rest \<and>
      (\<forall>x\<in>set hs. x \<noteq> [])) \<and>
   (\<exists>a hs rest. [''GET'', ''Content-type: x-poserspace/geo'', []] = a # hs @ [] # rest \<and>
      (\<forall>x\<in>set hs. x \<noteq> []))"
proof -
  have r1: "runLines scroll_handleLine (sample_scroll, mkConnectionState 5)
      [''GET'', ''Content-type: x-poserspace/text'', [], []]
     = Inr (sample_scroll,
            \<lparr>fd = 5, buf = [], state = DATA, interpreter = Some ScrollTextInterpreter\<rparr>)"
    by (simp add: scroll_handleLine_def scroll_handleHeader_def scroll_handleData_def
          mkConnectionState_def COLON_def trim_left_copy_def isspace_def Let_def)
  have r2: "runLines (geo_handleLine atof_decimal) (sample_geo, mkConnectionState 5)
      [''GET'', ''Content-type: x-poserspace/geo'', []]
     = Inr (sample_geo,
            \<lparr>fd = 5, buf = [], state = DATA, interpreter = Some GeoInterpreter\<rparr>)"
    by (simp add: geo_handleLine_def geo_handleHeader_def
          mkConnectionState_def COLON_def trim_left_copy_def isspace_def Let_def)
  have s1: "state \<lparr>fd = 5, buf = [], state = DATA,
      interpreter = Some ScrollTextInterpreter\<rparr> = DATA" by simp
  have s2: "state \<lparr>fd = 5, buf = [], state = DATA,
      interpreter = Some GeoInterpreter\<rparr> = DATA" by simp
  note T = parser_state_machine_invariant[where atof = atof_decimal
      and ?g5.0 = sample_geo and ?h5.0 = 5
      and ?ls5.0 = "[''GET'', ''Content-type: x-poserspace/geo'', []]"
      and ?g5' = sample_geo
      and ?c5' = "\<lparr>fd = 5, buf = [], state = DATA, interpreter = Some GeoInterpreter\<rparr>"
      and ?g6.0 = sample_scroll and ?h6.0 = 5
      and ?ls6.0 = "[''GET'', ''Content-type: x-poserspace/text'', [], []]"
      and ?g6' = sample_scroll
      and ?c6' = "\<lparr>fd = 5, buf = [], state = DATA, interpreter = Some ScrollTextInterpreter\<rparr>"]
  have e1: "\<exists>a hs rest. [''GET'', ''Content-type: x-poserspace/text'', [], []] = a # hs @ [] # rest \<and>
      (\<forall>x\<in>set hs. x \<noteq> [])"
    by (rule mp[OF T[THEN conjunct2, THEN conjunct2, THEN conjunct2, THEN conjunct2,
            THEN conjunct2, THEN conjunct1] conjI[OF r1 s1]])
  have e2: "\<exists>a hs rest. [''GET'', ''Content-type: x-poserspace/geo'', []] = a # hs @ [] # rest \<and>
      (\<forall>x\<in>set hs. x \<noteq> [])"
    by (rule mp[OF T[THEN conjunct2, THEN conjunct2, THEN conjunct2, THEN conjunct2,
            THEN conjunct1] conjI[OF r2 s2]])
  show ?thesis
    apply (intro conjI)
       apply (rule r1)
      apply (rule r2)
     apply (rule e1)
    apply (rule e2)
    done
qed


subsection \<open>Geo records\<close>

text \<open>
  C4. In the coordinate display, on a connection bound to the Geo interpreter and in the
  state \<open>DATA\<close>, a record with at least two tab-separated fields sets the target
  coordinates to what \<open>atof\<close> returns for the first and for the second field, whatever
  the texts are, and does not fail.
\<close>

theorem geo_record_sets_target:
  assumes "state c = DATA" and "interpreter c = Some GeoInterpreter"
    and "split_tab line = f1 # f2 # rest"
  shows "geo_handleLine atof (g, c) line =
           Inr (g\<lparr>targetLat := atof (c_str f1), targetLon := atof (c_str f2)\<rparr>, c)"
  using assms by (simp add: geo_handleLine_def Let_def)

theorem geo_record_sets_target_witness:
  "state \<lparr>fd = 5, buf = [], state = DATA, interpreter = Some GeoInterpreter\<rparr> = DATA \<and>
   interpreter \<lparr>fd = 5, buf = [], state = DATA, interpreter = Some GeoInterpreter\<rparr>
     = Some GeoInterpreter \<and>
   split_tab (''12.5'' @ [TAB] @ ''-3.25'') = ''12.5'' # ''-3.25'' # [] \<and>
   geo_handleLine atof_decimal
       (sample_geo, \<lparr>fd = 5, buf = [], state = DATA, interpreter = Some GeoInterpreter\<rparr>)
       (''12.5'' @ [TAB] @ ''-3.25'')
     = Inr (\<lparr>targetLat = 25 / 2, targetLon = - 13 / 4, currentLat = 0, currentLon = 0\<rparr>,
            \<lparr>fd = 5, buf = [], state = DATA, interpreter = Some GeoInterpreter\<rparr>)"
proof -
  have s: "split_tab (''12.5'' @ [TAB] @ ''-3.25'') = ''12.5'' # ''-3.25'' # []"
    by (simp add: TAB_def)
  have a1: "atof_decimal (c_str ''12.5'') = 25 / 2"
    by (simp add: c_str_def atof_decimal_def isspace_def is_digit_def digits_value_def
          digit_value_def Let_def)
  have a2: "atof_decimal (c_str ''-3.25'') = - 13 / 4"
    by (simp add: c_str_def atof_decimal_def isspace_def is_digit_def digits_value_def
          digit_value_def Let_def)
  have g: "sample_geo\<lparr>targetLat := 25 / 2, targetLon := - 13 / 4\<rparr>
      = \<lparr>targetLat = 25 / 2, targetLon = - 13 / 4, currentLat = 0, currentLon = 0\<rparr>"
    by (simp add: sample_geo_def)
  have st: "state \<lparr>fd = 5, buf = [], state = DATA, interpreter = Some GeoInterpreter\<rparr> = DATA"
    and ip: "interpreter \<lparr>fd = 5, buf = [], state = DATA, interpreter = Some GeoInterpreter\<rparr>
      = Some GeoInterpreter"
    by simp_all
  note T = geo_record_sets_target[OF st ip s, where atof = atof_decimal and g = sample_geo]
  show ?thesis
    apply (intro conjI)
       apply (rule st)
      apply (rule ip)
     apply (rule s)
    apply (rule T[unfolded a1 a2 g])
    done
qed

subsection \<open>A header line without a colon\<close>

lemma geo_handleLine_bad_header:
  "state c = HEADER \<Longrightarrow> l \<noteq> [] \<Longrightarrow> COLON \<notin> set l \<Longrightarrow>
     geo_handleLine atof (g, c) l = Inl (Thrown (''invalid header: '' @ l))"
  by (simp add: geo_handleLine_def)

lemma scroll_handleLine_bad_header:
  "state c = HEADER \<Longrightarrow> l \<noteq> [] \<Longrightarrow> COLON \<notin> set l \<Longrightarrow>
     scroll_handleLine (g, c) l = Inl (Thrown (''invalid header: '' @ l))"
  by (simp add: scroll_handleLine_def)

text \<open>
  A failure of \<open>handleLine\<close> passes through every caller: through \<open>handleInput\<close> when
  the line is the next complete line of the buffer, also after other lines of the same
  read; through \<open>acceptInput\<close>; through the loop over the ready events, also after other
  events; and through the loop of \<open>main\<close>, also after other turns.
\<close>

lemma takeWhile_upto_LF:
  "LF \<notin> set l \<Longrightarrow> takeWhile (\<lambda>ch. ch \<noteq> LF) (l @ LF # rest) = l"
  by (induction l) auto

lemma handleInput_first_line_fails:
  assumes f: "hl (g, c\<lparr>buf := buf c @ input\<rparr>) l = Inl e"
    and b: "buf c @ input = l @ t @ rest"
    and t: "t = [LF] \<and> last l \<noteq> CR \<or> t = [CR, LF]"
    and l: "l \<noteq> []" "LF \<notin> set l"
  shows "handleInput hl (g, c) input = Inl e"
proof -
  define b' where "b' = buf c @ input"
  define nl where "nl = length (takeWhile (\<lambda>ch. ch \<noteq> LF) b')"
  define e' where "e' = (if 0 < nl \<and> b' ! (nl - 1) = CR then nl - 1 else nl)"
  have inb: "LF \<in> set b'" using b t by (auto simp: b'_def)
  have fact: "take e' b' = l"
  proof (cases "t = [LF]")
    case True
    then have b1: "b' = l @ LF # rest" using b by (simp add: b'_def)
    have tw: "takeWhile (\<lambda>ch. ch \<noteq> LF) b' = l"
      unfolding b1 using l(2) by (rule takeWhile_upto_LF)
    have nl: "nl = length l" by (simp add: nl_def tw)
    have "b' ! (nl - 1) = last l"
      using l(1) by (simp add: b1 nl nth_append last_conv_nth)
    then have "e' = nl" using t True by (simp add: e'_def CR_def LF_def)
    then show ?thesis using nl b1 by simp
  next
    case False
    then have tt: "t = [CR, LF]" using t by simp
    then have b1: "b' = (l @ [CR]) @ LF # rest" using b by (simp add: b'_def)
    have "LF \<notin> set (l @ [CR])" using l(2) by (simp add: CR_def LF_def)
    then have tw: "takeWhile (\<lambda>ch. ch \<noteq> LF) b' = l @ [CR]"
      unfolding b1 by (rule takeWhile_upto_LF)
    have nl: "nl = Suc (length l)" by (simp add: nl_def tw)
    have "b' ! (nl - 1) = CR" by (simp add: b1 nl nth_append)
    then have "e' = length l" by (simp add: e'_def nl)
    then show ?thesis using nl b1 by simp
  qed
  have "inputLoop hl (g, c\<lparr>buf := b'\<rparr>) =
      (case hl (g, c\<lparr>buf := b'\<rparr>) (take e' b') of
         Inl err \<Rightarrow> Inl err
       | Inr (g', c') \<Rightarrow> inputLoop hl (g', c'\<lparr>buf := drop (Suc nl) b'\<rparr>))"
    by (rule inputLoop_step[OF inb nl_def e'_def]) simp
  then show ?thesis using f fact by (simp add: handleInput_def b'_def)
qed

lemma handleInput_later_line_fails:
  assumes ag: "\<And>g c b l. hl (g, c\<lparr>buf := b\<rparr>) l =
     (case hl (g, c) l of Inl e \<Rightarrow> Inl e | Inr (g', c') \<Rightarrow> Inr (g', c'\<lparr>buf := b\<rparr>))"
    and pre: "handleInput hl (g, c) pre = Inr (g1, c1)"
    and f: "hl (g1, c1\<lparr>buf := buf c1 @ suf\<rparr>) l = Inl e"
    and b: "buf c1 @ suf = l @ t @ rest"
    and t: "t = [LF] \<and> last l \<noteq> CR \<or> t = [CR, LF]"
    and l: "l \<noteq> []" "LF \<notin> set l"
  shows "handleInput hl (g, c) (pre @ suf) = Inl e"
proof -
  have p: "inputLoop hl (g, c\<lparr>buf := buf c @ pre\<rparr>) = Inr (g1, c1)"
    using pre by (simp add: handleInput_def)
  have "handleInput hl (g, c) (pre @ suf) = inputLoop hl (g, c\<lparr>buf := (buf c @ pre) @ suf\<rparr>)"
    by (simp add: handleInput_def)
  also have "\<dots> = (case inputLoop hl (g, c\<lparr>buf := buf c @ pre\<rparr>) of
        Inl e \<Rightarrow> Inl e
      | Inr (g', c') \<Rightarrow> inputLoop hl (g', c'\<lparr>buf := buf c' @ suf\<rparr>))"
    by (rule inputLoop_append[where hl = hl and g = g and c = c and b = "buf c @ pre"
          and x = suf, OF ag])
  also have "\<dots> = handleInput hl (g1, c1) suf"
    by (simp add: p handleInput_def)
  also have "\<dots> = Inl e"
    by (rule handleInput_first_line_fails[where hl = hl and g = g1 and c = c1
          and input = suf and l = l and e = e and t = t and rest = rest, OF f b t l])
  finally show ?thesis .
qed

lemma acceptInput_fails:
  assumes "0 \<le> len" and "0 \<le> h" and "h < int (length (connections w))"
    and "handleInput hl (globals w, connections w ! nat h) (take (nat len) bytes) = Inl e"
  shows "acceptInput hl h len bytes w = Inl e"
  using assms by (simp add: acceptInput_def)

lemma forEvents_append:
  "forEvents hl srv w (evs1 @ evs2) =
     (case forEvents hl srv w evs1 of
        Inl e \<Rightarrow> Inl e
      | Inr w1 \<Rightarrow> forEvents hl srv w1 evs2)"
  by (induction evs1 arbitrary: w) (simp_all split: sum.split)

lemma forEvents_later_event_fails:
  assumes "forEvents hl srv w evs1 = Inr w1" and "dispatch hl srv w1 ev = Inl e"
  shows "forEvents hl srv w (evs1 @ ev # evs2) = Inl e"
  using assms by (simp add: forEvents_append)

lemma mainLoop_append:
  "\<forall>it\<in>set its1. \<not> (pq \<and> quit_pending it) \<Longrightarrow>
     mainLoop pq renderFrame hl srv w (its1 @ its2) =
       (case mainLoop pq renderFrame hl srv w its1 of
          Inl e \<Rightarrow> Inl e
        | Inr w1 \<Rightarrow> mainLoop pq renderFrame hl srv w1 its2)"
proof (induction its1 arbitrary: w)
  case Nil
  then show ?case by simp
next
  case (Cons it its1)
  then have q: "(pq \<and> quit_pending it) = False"
    and r: "\<forall>it\<in>set its1. \<not> (pq \<and> quit_pending it)" by simp_all
  note ih = Cons.IH[OF r]
  show ?case
  proof (cases "gettimeofday_ret it < 0")
    case True
    then show ?thesis by simp
  next
    case t: False
    show ?thesis
    proof (cases "if frame_due it then renderFrame (globals w) else Inr (globals w)")
      case (Inl e)
      then show ?thesis using t by simp
    next
      case f: (Inr g)
      show ?thesis
      proof (cases "epoll_wait_ret it < 0")
        case True
        then show ?thesis using t f by simp
      next
        case p: False
        show ?thesis
        proof (cases "forEvents hl srv (w\<lparr>globals := g\<rparr>)
                        (take (nat (epoll_wait_ret it)) (ready it))")
          case (Inl e)
          then show ?thesis using t f p by simp
        next
          case (Inr w')
          then show ?thesis using t f p q ih[of w'] by (cases pq) simp_all
        qed
      qed
    qed
  qed
qed

lemma mainLoop_turn_fails:
  assumes "0 \<le> gettimeofday_ret it" and "0 \<le> epoll_wait_ret it"
    and "take (nat (epoll_wait_ret it)) (ready it) = evs1 @ ev # evs2"
    and "frame_due it \<longrightarrow> renderFrame (globals w) = Inr g1"
    and "\<not> frame_due it \<longrightarrow> g1 = globals w"
    and "forEvents hl srv (w\<lparr>globals := g1\<rparr>) evs1 = Inr w2"
    and "dispatch hl srv w2 ev = Inl e"
  shows "mainLoop pq renderFrame hl srv w (it # its) = Inl e"
proof -
  have r: "(if frame_due it then renderFrame (globals w) else Inr (globals w)) = Inr g1"
    using assms(4,5) by simp
  have f: "forEvents hl srv (w\<lparr>globals := g1\<rparr>) (evs1 @ ev # evs2) = Inl e"
    by (rule forEvents_later_event_fails[OF assms(6,7)])
  show ?thesis
    using assms(1,2) by (simp add: r assms(3) f)
qed

lemma mainLoop_bad_line_fatal:
  assumes ag: "\<And>g c b l. hl (g, c\<lparr>buf := b\<rparr>) l =
     (case hl (g, c) l of Inl e \<Rightarrow> Inl e | Inr (g', c') \<Rightarrow> Inr (g', c'\<lparr>buf := b\<rparr>))"
    and bad: "\<And>g c. state c = HEADER \<Longrightarrow> hl (g, c) l = Inl e"
    and line: "l \<noteq> []" "LF \<notin> set l"
    and tm: "t = [LF] \<and> last l \<noteq> CR \<or> t = [CR, LF]"
    and turn: "0 \<le> gettimeofday_ret it" "0 \<le> epoll_wait_ret it"
      "take (nat (epoll_wait_ret it)) (ready it) = evs1 @ ev # evs2"
    and ev: "ev_fd ev \<noteq> srv" "0 \<le> ev_fd ev" "0 \<le> sys_ret ev"
      "take (nat (sys_ret ev)) (sys_bytes ev) = pre @ suf"
    and before: "mainLoop pq renderFrame hl srv w its1 = Inr w1"
      "\<forall>i\<in>set its1. \<not> (pq \<and> quit_pending i)"
    and frame: "frame_due it \<longrightarrow> renderFrame (globals w1) = Inr g1"
      "\<not> frame_due it \<longrightarrow> g1 = globals w1"
    and evs: "forEvents hl srv (w1\<lparr>globals := g1\<rparr>) evs1 = Inr w2"
    and conn: "ev_fd ev < int (length (connections w2))"
      "handleInput hl (globals w2, connections w2 ! nat (ev_fd ev)) pre = Inr (g3, c3)"
      "state c3 = HEADER" "buf c3 @ suf = l @ t @ rest"
  shows "mainLoop pq renderFrame hl srv w (its1 @ it # its2) = Inl e"
proof -
  have "state (c3\<lparr>buf := buf c3 @ suf\<rparr>) = HEADER" using conn(3) by simp
  then have f: "hl (g3, c3\<lparr>buf := buf c3 @ suf\<rparr>) l = Inl e" by (rule bad)
  have hi: "handleInput hl (globals w2, connections w2 ! nat (ev_fd ev)) (pre @ suf) = Inl e"
    by (rule handleInput_later_line_fails[where hl = hl and l = l and t = t and rest = rest
          and ?g1.0 = g3 and ?c1.0 = c3, OF ag conn(2) f conn(4) tm line])
  have "acceptInput hl (ev_fd ev) (sys_ret ev) (sys_bytes ev) w2 = Inl e"
    by (rule acceptInput_fails) (use ev conn(1) hi in simp_all)
  then have d: "dispatch hl srv w2 ev = Inl e"
    using ev(1) by (simp add: dispatch_def)
  have tf: "mainLoop pq renderFrame hl srv w1 (it # its2) = Inl e"
    by (rule mainLoop_turn_fails[where renderFrame = renderFrame and hl = hl and w = w1
          and ?g1.0 = g1 and ev = ev and ?evs1.0 = evs1 and ?evs2.0 = evs2 and it = it
          and srv = srv and ?w2.0 = w2, OF turn frame evs d])
  have "mainLoop pq renderFrame hl srv w (its1 @ it # its2) =
      (case mainLoop pq renderFrame hl srv w its1 of
         Inl e \<Rightarrow> Inl e
       | Inr w1 \<Rightarrow> mainLoop pq renderFrame hl srv w1 (it # its2))"
    by (rule mainLoop_append[OF before(2)])
  also have "\<dots> = mainLoop pq renderFrame hl srv w1 (it # its2)"
    by (simp only: before(1) sum.case)
  also note tf
  finally show ?thesis .
qed

text \<open>
  C8. In both programs, in the state \<open>HEADER\<close>, \<open>handleLine\<close> on a line that is not empty
  and has no colon throws \<open>invalid header: \<close> followed by the line. Nothing between
  \<open>handleLine\<close> and \<open>main\<close> catches it: whenever the connection is in the state \<open>HEADER\<close>
  at the moment such a line is its next complete line (ended by a line feed or by carriage
  return and line feed), after any lines handled before it in the same read, after any
  events handled before it in the same turn and after any turns of the loop before that
  one, the loop of \<open>main\<close> ends with that exception, whatever other events and turns are
  pending.
\<close>

theorem header_without_colon_is_fatal:
  assumes "l \<noteq> []" and "COLON \<notin> set l" and "LF \<notin> set l"
    and "t = [LF] \<and> last l \<noteq> CR \<or> t = [CR, LF]"
    and "0 \<le> gettimeofday_ret it" and "0 \<le> epoll_wait_ret it"
    and "take (nat (epoll_wait_ret it)) (ready it) = evs1 @ ev # evs2"
    and "ev_fd ev \<noteq> serverSocket" and "0 \<le> ev_fd ev" and "0 \<le> sys_ret ev"
    and "take (nat (sys_ret ev)) (sys_bytes ev) = pre @ suf"
  shows
    "(state cg = HEADER \<longrightarrow>
        geo_handleLine atof (gg, cg) l = Inl (Thrown (''invalid header: '' @ l))) \<and>
     (state cs = HEADER \<longrightarrow>
        scroll_handleLine (gs, cs) l = Inl (Thrown (''invalid header: '' @ l))) \<and>
     (geo_mainLoop atof renderG serverSocket wg its1 = Inr wg1 \<and>
      (frame_due it \<longrightarrow> renderG (globals wg1) = Inr gg1) \<and>
      (\<not> frame_due it \<longrightarrow> gg1 = globals wg1) \<and>
      forEvents (geo_handleLine atof) serverSocket (wg1\<lparr>globals := gg1\<rparr>) evs1 = Inr wg2 \<and>
      ev_fd ev < int (length (connections wg2)) \<and>
      handleInput (geo_handleLine atof) (globals wg2, connections wg2 ! nat (ev_fd ev)) pre
        = Inr (gg3, cg3) \<and>
      state cg3 = HEADER \<and> buf cg3 @ suf = l @ t @ rest \<longrightarrow>
        geo_mainLoop atof renderG serverSocket wg (its1 @ it # its2)
          = Inl (Thrown (''invalid header: '' @ l))) \<and>
     ((\<forall>i\<in>set its1. \<not> quit_pending i) \<and>
      scroll_mainLoop renderS serverSocket ws its1 = Inr ws1 \<and>
      (frame_due it \<longrightarrow> renderS (globals ws1) = Inr gs1) \<and>
      (\<not> frame_due it \<longrightarrow> gs1 = globals ws1) \<and>
      forEvents scroll_handleLine serverSocket (ws1\<lparr>globals := gs1\<rparr>) evs1 = Inr ws2 \<and>
      ev_fd ev < int (length (connections ws2)) \<and>
      handleInput scroll_handleLine (globals ws2, connections ws2 ! nat (ev_fd ev)) pre
        = Inr (gs3, cs3) \<and>
      state cs3 = HEADER \<and> buf cs3 @ suf = l @ t @ rest \<longrightarrow>
        scroll_mainLoop renderS serverSocket ws (its1 @ it # its2)
          = Inl (Thrown (''invalid header: '' @ l)))"
proof -
  have bg: "state c = HEADER \<Longrightarrow>
      geo_handleLine atof (g, c) l = Inl (Thrown (''invalid header: '' @ l))" for g c
    using assms(1,2) by (simp add: geo_handleLine_bad_header)
  have bs: "state c = HEADER \<Longrightarrow>
      scroll_handleLine (g, c) l = Inl (Thrown (''invalid header: '' @ l))" for g c
    using assms(1,2) by (simp add: scroll_handleLine_bad_header)
  have p1: "state cg = HEADER \<longrightarrow>
        geo_handleLine atof (gg, cg) l = Inl (Thrown (''invalid header: '' @ l))"
    using bg by simp
  have p2: "state cs = HEADER \<longrightarrow>
        scroll_handleLine (gs, cs) l = Inl (Thrown (''invalid header: '' @ l))"
    using bs by simp
  have p3: "geo_mainLoop atof renderG serverSocket wg its1 = Inr wg1 \<and>
      (frame_due it \<longrightarrow> renderG (globals wg1) = Inr gg1) \<and>
      (\<not> frame_due it \<longrightarrow> gg1 = globals wg1) \<and>
      forEvents (geo_handleLine atof) serverSocket (wg1\<lparr>globals := gg1\<rparr>) evs1 = Inr wg2 \<and>
      ev_fd ev < int (length (connections wg2)) \<and>
      handleInput (geo_handleLine atof) (globals wg2, connections wg2 ! nat (ev_fd ev)) pre
        = Inr (gg3, cg3) \<and>
      state cg3 = HEADER \<and> buf cg3 @ suf = l @ t @ rest \<longrightarrow>
        geo_mainLoop atof renderG serverSocket wg (its1 @ it # its2)
          = Inl (Thrown (''invalid header: '' @ l))"
  proof
    assume a: "geo_mainLoop atof renderG serverSocket wg its1 = Inr wg1 \<and>
      (frame_due it \<longrightarrow> renderG (globals wg1) = Inr gg1) \<and>
      (\<not> frame_due it \<longrightarrow> gg1 = globals wg1) \<and>
      forEvents (geo_handleLine atof) serverSocket (wg1\<lparr>globals := gg1\<rparr>) evs1 = Inr wg2 \<and>
      ev_fd ev < int (length (connections wg2)) \<and>
      handleInput (geo_handleLine atof) (globals wg2, connections wg2 ! nat (ev_fd ev)) pre
        = Inr (gg3, cg3) \<and>
      state cg3 = HEADER \<and> buf cg3 @ suf = l @ t @ rest"
    have nq: "\<forall>i\<in>set its1. \<not> (False \<and> quit_pending i)" by simp
    show "geo_mainLoop atof renderG serverSocket wg (its1 @ it # its2)
          = Inl (Thrown (''invalid header: '' @ l))"
      unfolding geo_mainLoop_def
      by (rule mainLoop_bad_line_fatal[where hl = "geo_handleLine atof" and l = l and t = t
            and rest = rest and ev = ev and ?evs1.0 = evs1 and ?evs2.0 = evs2 and pre = pre
            and suf = suf and ?w1.0 = wg1 and ?g1.0 = gg1 and ?w2.0 = wg2 and ?g3.0 = gg3
            and ?c3.0 = cg3,
            OF geo_handleLine_buf bg assms(1,3,4,5,6,7,8,9,10,11) _ nq])
         (use a in \<open>simp_all add: geo_mainLoop_def\<close>)
  qed
  have p4: "(\<forall>i\<in>set its1. \<not> quit_pending i) \<and>
      scroll_mainLoop renderS serverSocket ws its1 = Inr ws1 \<and>
      (frame_due it \<longrightarrow> renderS (globals ws1) = Inr gs1) \<and>
      (\<not> frame_due it \<longrightarrow> gs1 = globals ws1) \<and>
      forEvents scroll_handleLine serverSocket (ws1\<lparr>globals := gs1\<rparr>) evs1 = Inr ws2 \<and>
      ev_fd ev < int (length (connections ws2)) \<and>
      handleInput scroll_handleLine (globals ws2, connections ws2 ! nat (ev_fd ev)) pre
        = Inr (gs3, cs3) \<and>
      state cs3 = HEADER \<and> buf cs3 @ suf = l @ t @ rest \<longrightarrow>
        scroll_mainLoop renderS serverSocket ws (its1 @ it # its2)
          = Inl (Thrown (''invalid header: '' @ l))"
  proof
    assume a: "(\<forall>i\<in>set its1. \<not> quit_pending i) \<and>
      scroll_mainLoop renderS serverSocket ws its1 = Inr ws1 \<and>
      (frame_due it \<longrightarrow> renderS (globals ws1) = Inr gs1) \<and>
      (\<not> frame_due it \<longrightarrow> gs1 = globals ws1) \<and>
      forEvents scroll_handleLine serverSocket (ws1\<lparr>globals := gs1\<rparr>) evs1 = Inr ws2 \<and>
      ev_fd ev < int (length (connections ws2)) \<and>
      handleInput scroll_handleLine (globals ws2, connections ws2 ! nat (ev_fd ev)) pre
        = Inr (gs3, cs3) \<and>
      state cs3 = HEADER \<and> buf cs3 @ suf = l @ t @ rest"
    then have nq: "\<forall>i\<in>set its1. \<not> (True \<and> quit_pending i)" by simp
    show "scroll_mainLoop renderS serverSocket ws (its1 @ it # its2)
          = Inl (Thrown (''invalid header: '' @ l))"
      unfolding scroll_mainLoop_def
      by (rule mainLoop_bad_line_fatal[where hl = scroll_handleLine and l = l and t = t
            and rest = rest and ev = ev and ?evs1.0 = evs1 and ?evs2.0 = evs2 and pre = pre
            and suf = suf and ?w1.0 = ws1 and ?g1.0 = gs1 and ?w2.0 = ws2 and ?g3.0 = gs3
            and ?c3.0 = cs3,
            OF scroll_handleLine_buf bs assms(1,3,4,5,6,7,8,9,10,11) _ nq])
         (use a in \<open>simp_all add: scroll_mainLoop_def\<close>)
  qed
  show ?thesis
    apply (intro conjI)
       apply (rule p1)
      apply (rule p2)
     apply (rule p3)
    apply (rule p4)
    done
qed

theorem header_without_colon_is_fatal_witness:
  "geo_handleLine atof_decimal
       (sample_geo, \<lparr>fd = 5, buf = [], state = HEADER, interpreter = None\<rparr>) ''Content-type x''
     = Inl (Thrown ''invalid header: Content-type x'') \<and>
   scroll_handleLine
       (sample_scroll, \<lparr>fd = 5, buf = [], state = HEADER, interpreter = None\<rparr>) ''Content-type x''
     = Inl (Thrown ''invalid header: Content-type x'') \<and>
   geo_mainLoop atof_decimal Inr 3 (sample_world sample_geo)
       ([sample_turn [Event 3 5 []]] @
        sample_turn [Event 3 6 [],
                     Event 5 25 (''GET'' @ [CR, LF] @ ''Content-type x'' @ [CR, LF] @ ''more''),
                     Event 3 7 []] #
        [sample_turn []])
     = Inl (Thrown ''invalid header: Content-type x'') \<and>
   scroll_mainLoop Inr 3 (sample_world sample_scroll)
       ([sample_turn [Event 3 5 []]] @
        sample_turn [Event 3 6 [],
                     Event 5 25 (''GET'' @ [CR, LF] @ ''Content-type x'' @ [CR, LF] @ ''more''),
                     Event 3 7 []] #
        [sample_turn []])
     = Inl (Thrown ''invalid header: Content-type x'')"
proof -
  let ?ev = "Event 5 25 (''GET'' @ [CR, LF] @ ''Content-type x'' @ [CR, LF] @ ''more'')"
  let ?it = "sample_turn [Event 3 6 [], ?ev, Event 3 7 []]"
  let ?c3 = "\<lparr>fd = 5, buf = [], state = HEADER, interpreter = None\<rparr>"
  let ?cs = "[mkConnectionState (- 1), mkConnectionState (- 1), mkConnectionState (- 1),
      mkConnectionState (- 1), mkConnectionState (- 1), mkConnectionState 5,
      mkConnectionState 6]"
  have h: "''Content-type x'' \<noteq> []" "COLON \<notin> set ''Content-type x''"
    "LF \<notin> set ''Content-type x''"
    "[CR, LF] = [LF] \<and> last ''Content-type x'' \<noteq> CR \<or> [CR, LF] = [CR, LF]"
    "0 \<le> gettimeofday_ret ?it" "0 \<le> epoll_wait_ret ?it"
    "take (nat (epoll_wait_ret ?it)) (ready ?it) = [Event 3 6 []] @ ?ev # [Event 3 7 []]"
    "ev_fd ?ev \<noteq> 3" "0 \<le> ev_fd ?ev" "0 \<le> sys_ret ?ev"
    "take (nat (sys_ret ?ev)) (sys_bytes ?ev)
       = (''GET'' @ [CR, LF]) @ (''Content-type x'' @ [CR, LF] @ ''more'')"
    by (simp_all add: COLON_def LF_def CR_def sample_turn_def)
  note T = header_without_colon_is_fatal[OF h, where atof = atof_decimal
      and gg = sample_geo and gs = sample_scroll and cg = ?c3 and cs = ?c3
      and rest = "''more''" and renderG = Inr and renderS = Inr
      and ?its1.0 = "[sample_turn [Event 3 5 []]]" and ?its2.0 = "[sample_turn []]"
      and wg = "sample_world sample_geo" and ws = "sample_world sample_scroll"
      and ?wg1.0 = "sample_connected sample_geo" and ?ws1.0 = "sample_connected sample_scroll"
      and ?gg1.0 = sample_geo and ?gs1.0 = sample_scroll
      and ?wg2.0 = "\<lparr>connections = ?cs, interest = [3, 5, 6], open_fds = [3, 5, 6],
                  globals = sample_geo\<rparr>"
      and ?ws2.0 = "\<lparr>connections = ?cs, interest = [3, 5, 6], open_fds = [3, 5, 6],
                  globals = sample_scroll\<rparr>"
      and ?gg3.0 = sample_geo and ?gs3.0 = sample_scroll and ?cg3.0 = ?c3 and ?cs3.0 = ?c3]
  have sg: "state (?c3 :: geo_interpreter ConnectionState) = HEADER"
    and ss: "state (?c3 :: scroll_interpreter ConnectionState) = HEADER"
    by simp_all
  have wg: "geo_mainLoop atof_decimal Inr 3 (sample_world sample_geo) [sample_turn [Event 3 5 []]]
        = Inr (sample_connected sample_geo) \<and>
      (frame_due ?it \<longrightarrow> Inr (globals (sample_connected sample_geo
            :: (geo_interpreter, rat GeoData) world)) = (Inr sample_geo :: error + rat GeoData)) \<and>
      (\<not> frame_due ?it \<longrightarrow> sample_geo = globals (sample_connected sample_geo
            :: (geo_interpreter, rat GeoData) world)) \<and>
      forEvents (geo_handleLine atof_decimal) 3
          ((sample_connected sample_geo)\<lparr>globals := sample_geo\<rparr>) [Event 3 6 []]
        = Inr \<lparr>connections = ?cs, interest = [3, 5, 6], open_fds = [3, 5, 6],
               globals = sample_geo\<rparr> \<and>
      ev_fd ?ev < int (length (connections
          (\<lparr>connections = ?cs, interest = [3, 5, 6], open_fds = [3, 5, 6],
            globals = sample_geo\<rparr> :: (geo_interpreter, rat GeoData) world))) \<and>
      handleInput (geo_handleLine atof_decimal)
          (globals \<lparr>connections = ?cs, interest = [3, 5, 6], open_fds = [3, 5, 6],
                     globals = sample_geo\<rparr>,
           connections \<lparr>connections = ?cs, interest = [3, 5, 6], open_fds = [3, 5, 6],
                         globals = sample_geo\<rparr> ! nat (ev_fd ?ev))
          (''GET'' @ [CR, LF])
        = Inr (sample_geo, ?c3) \<and>
      state (?c3 :: geo_interpreter ConnectionState) = HEADER \<and>
      buf (?c3 :: geo_interpreter ConnectionState) @ (''Content-type x'' @ [CR, LF] @ ''more'')
        = ''Content-type x'' @ [CR, LF] @ ''more''"
    by (simp add: geo_mainLoop_def sample_turn_def sample_world_def sample_connected_def
          dispatch_def acceptConnection_def epoll_ctl_add_def grow.simps
          handleInput_def inputLoop.simps geo_handleLine_def mkConnectionState_def
          LF_def CR_def Let_def)
  have ws: "(\<forall>i\<in>set [sample_turn [Event 3 5 []]]. \<not> quit_pending i) \<and>
      scroll_mainLoop Inr 3 (sample_world sample_scroll) [sample_turn [Event 3 5 []]]
        = Inr (sample_connected sample_scroll) \<and>
      (frame_due ?it \<longrightarrow> Inr (globals (sample_connected sample_scroll
            :: (scroll_interpreter, scroll_globals) world))
          = (Inr sample_scroll :: error + scroll_globals)) \<and>
      (\<not> frame_due ?it \<longrightarrow> sample_scroll = globals (sample_connected sample_scroll
            :: (scroll_interpreter, scroll_globals) world)) \<and>
      forEvents scroll_handleLine 3
          ((sample_connected sample_scroll)\<lparr>globals := sample_scroll\<rparr>) [Event 3 6 []]
        = Inr \<lparr>connections = ?cs, interest = [3, 5, 6], open_fds = [3, 5, 6],
               globals = sample_scroll\<rparr> \<and>
      ev_fd ?ev < int (length (connections
          (\<lparr>connections = ?cs, interest = [3, 5, 6], open_fds = [3, 5, 6],
            globals = sample_scroll\<rparr> :: (scroll_interpreter, scroll_globals) world))) \<and>
      handleInput scroll_handleLine
          (globals \<lparr>connections = ?cs, interest = [3, 5, 6], open_fds = [3, 5, 6],
                     globals = sample_scroll\<rparr>,
           connections \<lparr>connections = ?cs, interest = [3, 5, 6], open_fds = [3, 5, 6],
                         globals = sample_scroll\<rparr> ! nat (ev_fd ?ev))
          (''GET'' @ [CR, LF])
        = Inr (sample_scroll, ?c3) \<and>
      state (?c3 :: scroll_interpreter ConnectionState) = HEADER \<and>
      buf (?c3 :: scroll_interpreter ConnectionState) @ (''Content-type x'' @ [CR, LF] @ ''more'')
        = ''Content-type x'' @ [CR, LF] @ ''more''"
    by (simp add: scroll_mainLoop_def sample_turn_def sample_world_def sample_connected_def
          dispatch_def acceptConnection_def epoll_ctl_add_def grow.simps
          handleInput_def inputLoop.simps scroll_handleLine_def mkConnectionState_def
          LF_def CR_def Let_def)
  have ap: "''invalid header: '' @ ''Content-type x'' = ''invalid header: Content-type x''"
    by simp
  show ?thesis
    apply (intro conjI)
       apply (rule mp[OF T[THEN conjunct1] sg, unfolded ap])
      apply (rule mp[OF T[THEN conjunct2, THEN conjunct1] ss, unfolded ap])
     apply (rule mp[OF T[THEN conjunct2, THEN conjunct2, THEN conjunct1] wg, unfolded ap])
    apply (rule mp[OF T[THEN conjunct2, THEN conjunct2, THEN conjunct2] ws, unfolded ap])
    done
qed

subsection \<open>The connection registry\<close>

text \<open>
  What \<open>acceptConnection\<close> does to the registry: the table is padded with closed entries up
  to index \<open>con\<close> when it is shorter, and the new entry is appended at the end.
\<close>

lemma grow_replicate:
  "grow cs con = cs @ replicate (con - length cs) (mkConnectionState (- 1))"
proof (induction cs con rule: grow.induct)
  case (1 cs con)
  show ?case
  proof (cases "length cs < con")
    case True
    then have "con - length cs = Suc (con - Suc (length cs))" by simp
    with "1.IH"[OF True] True show ?thesis
      by (simp add: grow.simps[of cs con] replicate_app_Cons_same)
  next
    case False
    then show ?thesis by (simp add: grow.simps[of cs con])
  qed
qed

lemma acceptConnection_result:
  assumes "acceptConnection ret w = Inr w'"
  shows "0 \<le> ret" and "ret \<notin> set (interest w)"
    and "interest w' = interest w @ [ret]" and "open_fds w' = open_fds w @ [ret]"
    and "connections w' =
           connections w @ replicate (nat ret - length (connections w)) (mkConnectionState (- 1))
             @ [mkConnectionState ret]"
  using assms
  by (auto simp: acceptConnection_def epoll_ctl_add_def grow_replicate Let_def
        split: if_splits)

lemma acceptConnection_slot:
  assumes "acceptConnection ret w = Inr w'"
  shows "nat ret < length (connections w')"
    and "length (connections w) \<le> nat ret \<Longrightarrow>
           connections w' ! nat ret = mkConnectionState ret"
    and "i < length (connections w) \<Longrightarrow> connections w' ! i = connections w ! i"
    and "length (connections w) \<le> length (connections w')"
proof -
  note c = acceptConnection_result(5)[OF assms]
  show "nat ret < length (connections w')"
    by (simp add: c)
  show "connections w' ! nat ret = mkConnectionState ret"
    if "length (connections w) \<le> nat ret"
    using that by (simp add: c nth_append)
  show "connections w' ! i = connections w ! i" if "i < length (connections w)"
    using that by (simp add: c nth_append)
  show "length (connections w) \<le> length (connections w')"
    by (simp add: c)
qed

lemma nth_append_in_second:
  "\<not> i < length xs \<Longrightarrow> i < length (xs @ ys) \<Longrightarrow> (xs @ ys) ! i \<in> set ys"
  by (simp add: nth_append)

lemma fresh_parser_mk: "fresh_parser (mkConnectionState k)"
  by (simp add: fresh_parser_def mkConnectionState_def)

text \<open>What \<open>acceptInput\<close> does to the registry when it returns.\<close>

lemma acceptInput_result:
  assumes "acceptInput hl h len bytes w = Inr w'"
  shows "0 \<le> h" and "nat h < length (connections w)"
    and "length (connections w') = length (connections w)"
    and "i \<noteq> nat h \<Longrightarrow> connections w' ! i = connections w ! i"
    and "0 \<le> len \<Longrightarrow> interest w' = interest w \<and> open_fds w' = open_fds w"
    and "len < 0 \<Longrightarrow> interest w' = removeAll h (removeAll 0 (interest w)) \<and>
           open_fds w' = removeAll h (open_fds w) \<and>
           connections w' ! nat h = mkConnectionState (- 1)"
  using assms
  by (auto simp: acceptInput_def epoll_ctl_del_def sys_close_def Let_def
        split: if_splits option.splits sum.splits)

lemma dispatch_length:
  "dispatch hl srv w ev = Inr w' \<Longrightarrow> length (connections w) \<le> length (connections w')"
  by (auto simp: dispatch_def acceptConnection_slot(4) acceptInput_result(3) split: if_splits)

lemma forEvents_handles:
  "forEvents hl srv w evs = Inr w' \<Longrightarrow>
     length (connections w) \<le> length (connections w') \<and>
     (\<forall>ev\<in>set evs. ev_fd ev = srv \<longrightarrow> nat (sys_ret ev) < length (connections w'))"
proof (induction evs arbitrary: w)
  case Nil
  then show ?case by simp
next
  case (Cons ev evs)
  from Cons.prems obtain w1 where
    d: "dispatch hl srv w ev = Inr w1" and r: "forEvents hl srv w1 evs = Inr w'"
    by (auto split: sum.splits)
  note ih = Cons.IH[OF r]
  have l1: "length (connections w) \<le> length (connections w1)"
    using d by (rule dispatch_length)
  have "nat (sys_ret ev) < length (connections w1)" if "ev_fd ev = srv"
    using d that by (simp add: dispatch_def acceptConnection_slot(1))
  then have "ev_fd ev = srv \<longrightarrow> nat (sys_ret ev) < length (connections w')"
    using ih by auto
  then show ?case using ih l1 by auto
qed

text \<open>Every event the kernel can deliver keeps the invariant of the registry.\<close>

lemma dispatch_registry_ok:
  assumes inv: "registry_ok w" and ok: "event_ok srv w ev"
    and d: "dispatch hl srv w ev = Inr w'"
  shows "registry_ok w'"
proof (cases "ev_fd ev = srv")
  case True
  then have a: "acceptConnection (sys_ret ev) w = Inr w'" using d by (simp add: dispatch_def)
  note r = acceptConnection_result[OF a]
  have sub: "set (interest w') \<subseteq> set (open_fds w')"
    using inv by (auto simp: registry_ok_def r(3,4))
  have slot: "int i \<in> set (open_fds w') \<or> fresh_parser (connections w' ! i)"
    if i: "i < length (connections w')" for i
  proof (cases "i < length (connections w)")
    case True
    then have "connections w' ! i = connections w ! i"
      by (rule acceptConnection_slot(3)[OF a])
    moreover have "int i \<in> set (open_fds w) \<or> fresh_parser (connections w ! i)"
      using inv True by (simp add: registry_ok_def)
    ultimately show ?thesis by (auto simp: r(4))
  next
    case False
    then have "connections w' ! i \<in>
        set (replicate (nat (sys_ret ev) - length (connections w)) (mkConnectionState (- 1))
               @ [mkConnectionState (sys_ret ev)])"
      using i unfolding r(5) by (rule nth_append_in_second)
    then have "fresh_parser (connections w' ! i)"
      by (auto simp: fresh_parser_mk)
    then show ?thesis by simp
  qed
  show ?thesis using sub slot by (simp add: registry_ok_def)
next
  case False
  then have a: "acceptInput hl (ev_fd ev) (sys_ret ev) (sys_bytes ev) w = Inr w'"
    using d by (simp add: dispatch_def)
  note r = acceptInput_result[OF a]
  have reg: "ev_fd ev \<in> set (open_fds w)"
    using ok False inv by (auto simp: event_ok_def registry_ok_def)
  show ?thesis
  proof (cases "sys_ret ev < 0")
    case neg: True
    have sub: "set (interest w') \<subseteq> set (open_fds w')"
      using inv r(6)[OF neg] by (auto simp: registry_ok_def)
    have slot: "int i \<in> set (open_fds w') \<or> fresh_parser (connections w' ! i)"
      if i: "i < length (connections w')" for i
    proof (cases "i = nat (ev_fd ev)")
      case True
      then show ?thesis using r(6)[OF neg] by (simp add: fresh_parser_mk)
    next
      case ne: False
      then have ne': "int i \<noteq> ev_fd ev" using r(1) by auto
      have "int i \<in> set (open_fds w) \<or> fresh_parser (connections w ! i)"
        using inv i r(3) by (simp add: registry_ok_def)
      then show ?thesis using r(4)[OF ne] r(6)[OF neg] ne' by auto
    qed
    show ?thesis using sub slot by (simp add: registry_ok_def)
  next
    case pos: False
    then have p: "0 \<le> sys_ret ev" by simp
    have sub: "set (interest w') \<subseteq> set (open_fds w')"
      using inv r(5)[OF p] by (simp add: registry_ok_def)
    have slot: "int i \<in> set (open_fds w') \<or> fresh_parser (connections w' ! i)"
      if i: "i < length (connections w')" for i
    proof (cases "i = nat (ev_fd ev)")
      case True
      then show ?thesis using reg r(1) r(5)[OF p] by simp
    next
      case ne: False
      have "int i \<in> set (open_fds w) \<or> fresh_parser (connections w ! i)"
        using inv i r(3) by (simp add: registry_ok_def)
      then show ?thesis using r(4)[OF ne] r(5)[OF p] by auto
    qed
    show ?thesis using sub slot by (simp add: registry_ok_def)
  qed
qed

lemma forEvents_registry_ok:
  "registry_ok w \<Longrightarrow> kernel_events hl srv w evs \<Longrightarrow> forEvents hl srv w evs = Inr w' \<Longrightarrow>
     registry_ok w'"
proof (induction evs arbitrary: w)
  case Nil
  then show ?case by simp
next
  case (Cons ev evs)
  from Cons.prems(3) obtain w1 where
    d: "dispatch hl srv w ev = Inr w1" and r: "forEvents hl srv w1 evs = Inr w'"
    by (auto split: sum.splits)
  have ok: "event_ok srv w ev" and k: "kernel_events hl srv w1 evs"
    using Cons.prems(2) d by simp_all
  have "registry_ok w1" by (rule dispatch_registry_ok[OF Cons.prems(1) ok d])
  then show ?case using k r by (rule Cons.IH)
qed

lemma kernel_events_last:
  "kernel_events hl srv w (evs @ [ev]) \<Longrightarrow> forEvents hl srv w evs = Inr w1 \<Longrightarrow>
     kernel_events hl srv w evs \<and> event_ok srv w1 ev"
proof (induction evs arbitrary: w)
  case Nil
  then show ?case by simp
next
  case (Cons e evs)
  from Cons.prems(2) obtain w0 where
    d: "dispatch hl srv w e = Inr w0" and r: "forEvents hl srv w0 evs = Inr w1"
    by (auto split: sum.splits)
  have ok: "event_ok srv w e" and k: "kernel_events hl srv w0 (evs @ [ev])"
    using Cons.prems(1) d by simp_all
  from Cons.IH[OF k r] show ?case using ok d by simp
qed

text \<open>
  The member \<open>fd\<close> has no effect on what \<open>handleLine\<close> does, in either program.
\<close>

lemma geo_handleLine_fd:
  "geo_handleLine atof (g, c\<lparr>fd := k\<rparr>) l =
     (case geo_handleLine atof (g, c) l of
        Inl e \<Rightarrow> Inl e
      | Inr (g', c') \<Rightarrow> Inr (g', c'\<lparr>fd := k\<rparr>))"
  by (cases "state c")
     (simp_all add: geo_handleLine_def geo_handleHeader_def Let_def
        split: option.split sum.split)

lemma scroll_handleLine_fd:
  "scroll_handleLine (g, c\<lparr>fd := k\<rparr>) l =
     (case scroll_handleLine (g, c) l of
        Inl e \<Rightarrow> Inl e
      | Inr (g', c') \<Rightarrow> Inr (g', c'\<lparr>fd := k\<rparr>))"
  by (cases "state c")
     (simp_all add: scroll_handleLine_def scroll_handleHeader_def Let_def
        split: option.split sum.split scroll_interpreter.split)

text \<open>
  C5. The registry is indexed by the handle: \<open>acceptInput\<close> works on \<open>connections[fd]\<close>.
  Start from a registry that satisfies its invariant (the empty table of a fresh process
  does) and let any sequence of events that the kernel can deliver be handled: accepts,
  reads, and reads that fail and close. Then after an accept of a handle \<open>h\<close>
  \<^item> \<open>h\<close> indexes a slot of the table, and so does every handle accepted before;
  \<^item> the slot at index \<open>h\<close> holds the parser state a connection starts in, and it is
    the entry \<open>ConnectionState(h)\<close> itself when the table had to grow;
  \<^item> the slots of the table as it was are untouched, and the invariant holds again;
  \<^item> a later read on \<open>h\<close> is handled on that slot, with no index out of range.
  A slot that was there before the accept may carry another value in its member \<open>fd\<close>,
  which has no effect on what \<open>handleLine\<close> does.
\<close>

theorem registry_slot_after_accept:
  assumes "registry_ok w"
    and "kernel_events hl serverSocket w (evs @ [Event serverSocket h bs])"
    and "forEvents hl serverSocket w evs = Inr w1"
    and "dispatch hl serverSocket w1 (Event serverSocket h bs) = Inr w'"
  shows "0 \<le> h \<and> nat h < length (connections w') \<and>
     fresh_parser (connections w' ! nat h) \<and>
     (length (connections w1) \<le> nat h \<longrightarrow> connections w' ! nat h = mkConnectionState h) \<and>
     (\<forall>i\<in>{0..<length (connections w1)}. connections w' ! i = connections w1 ! i) \<and>
     (\<forall>ev\<in>set evs. ev_fd ev = serverSocket \<longrightarrow> nat (sys_ret ev) < length (connections w')) \<and>
     registry_ok w' \<and>
     (0 \<le> len \<longrightarrow>
        acceptInput hl h len bytes w' =
          (case handleInput hl (globals w', connections w' ! nat h) (take (nat len) bytes) of
             Inl e \<Rightarrow> Inl e
           | Inr (g', c') \<Rightarrow> Inr (w'\<lparr>globals := g', connections := (connections w')[nat h := c']\<rparr>))) \<and>
     geo_handleLine atof (gg, cg\<lparr>fd := k\<rparr>) l =
       (case geo_handleLine atof (gg, cg) l of
          Inl e \<Rightarrow> Inl e
        | Inr (g', c') \<Rightarrow> Inr (g', c'\<lparr>fd := k\<rparr>)) \<and>
     scroll_handleLine (gs, cs\<lparr>fd := k\<rparr>) l =
       (case scroll_handleLine (gs, cs) l of
          Inl e \<Rightarrow> Inl e
        | Inr (g', c') \<Rightarrow> Inr (g', c'\<lparr>fd := k\<rparr>))"
proof -
  have ok: "event_ok serverSocket w1 (Event serverSocket h bs)"
    and k: "kernel_events hl serverSocket w evs"
    using kernel_events_last[OF assms(2,3)] by simp_all
  have inv1: "registry_ok w1"
    by (rule forEvents_registry_ok[OF assms(1) k assms(3)])
  have a: "acceptConnection h w1 = Inr w'"
    using assms(4) by (simp add: dispatch_def)
  have closed: "h \<notin> set (open_fds w1)"
    using ok by (simp add: event_ok_def)
  have p1: "0 \<le> h" by (rule acceptConnection_result(1)[OF a])
  have p2: "nat h < length (connections w')" by (rule acceptConnection_slot(1)[OF a])
  have p3: "fresh_parser (connections w' ! nat h)"
  proof (cases "length (connections w1) \<le> nat h")
    case True
    then show ?thesis
      using acceptConnection_slot(2)[OF a] by (simp add: fresh_parser_mk)
  next
    case False
    then have i: "nat h < length (connections w1)" by simp
    have "\<forall>i\<in>{0..<length (connections w1)}.
        int i \<in> set (open_fds w1) \<or> fresh_parser (connections w1 ! i)"
      using inv1 by (simp add: registry_ok_def)
    moreover have "nat h \<in> {0..<length (connections w1)}" using i by simp
    ultimately have "int (nat h) \<in> set (open_fds w1)
        \<or> fresh_parser (connections w1 ! nat h)"
      by (rule bspec)
    then have "fresh_parser (connections w1 ! nat h)" using closed p1 by simp
    then show ?thesis using acceptConnection_slot(3)[OF a i] by simp
  qed
  have p4: "length (connections w1) \<le> nat h \<longrightarrow> connections w' ! nat h = mkConnectionState h"
    using acceptConnection_slot(2)[OF a] by simp
  have p5: "\<forall>i\<in>{0..<length (connections w1)}. connections w' ! i = connections w1 ! i"
    using acceptConnection_slot(3)[OF a] by simp
  have "length (connections w1) \<le> length (connections w')"
    by (rule acceptConnection_slot(4)[OF a])
  then have p6: "\<forall>ev\<in>set evs. ev_fd ev = serverSocket
      \<longrightarrow> nat (sys_ret ev) < length (connections w')"
    using forEvents_handles[OF assms(3)] by auto
  have p7: "registry_ok w'"
    by (rule dispatch_registry_ok[OF inv1 ok assms(4)])
  have p8: "0 \<le> len \<longrightarrow>
        acceptInput hl h len bytes w' =
          (case handleInput hl (globals w', connections w' ! nat h) (take (nat len) bytes) of
             Inl e \<Rightarrow> Inl e
           | Inr (g', c') \<Rightarrow> Inr (w'\<lparr>globals := g', connections := (connections w')[nat h := c']\<rparr>))"
  proof
    assume "0 \<le> len"
    then have nl: "\<not> len < 0" by simp
    have ni: "\<not> (h < 0 \<or> int (length (connections w')) \<le> h)"
      using p1 p2 by linarith
    show "acceptInput hl h len bytes w' =
          (case handleInput hl (globals w', connections w' ! nat h) (take (nat len) bytes) of
             Inl e \<Rightarrow> Inl e
           | Inr (g', c') \<Rightarrow> Inr (w'\<lparr>globals := g', connections := (connections w')[nat h := c']\<rparr>))"
      unfolding acceptInput_def using nl ni by (simp only: if_False)
  qed
  show ?thesis
    apply (intro conjI)
             apply (rule p1)
            apply (rule p2)
           apply (rule p3)
          apply (rule p4)
         apply (rule p5)
        apply (rule p6)
       apply (rule p7)
      apply (rule p8)
     apply (rule geo_handleLine_fd)
    apply (rule scroll_handleLine_fd)
    done
qed

theorem registry_slot_after_accept_witness:
  "registry_ok (sample_world sample_scroll :: (scroll_interpreter, scroll_globals) world) \<and>
   kernel_events scroll_handleLine 3 (sample_world sample_scroll)
       ([Event 3 5 [], Event 5 5 (''GET'' @ [CR, LF])] @ [Event 3 6 []]) \<and>
   forEvents scroll_handleLine 3 (sample_world sample_scroll)
       [Event 3 5 [], Event 5 5 (''GET'' @ [CR, LF])]
     = Inr \<lparr>connections =
              [mkConnectionState (- 1), mkConnectionState (- 1), mkConnectionState (- 1),
               mkConnectionState (- 1), mkConnectionState (- 1),
               \<lparr>fd = 5, buf = [], state = HEADER, interpreter = None\<rparr>],
            interest = [3, 5], open_fds = [3, 5], globals = sample_scroll\<rparr> \<and>
   dispatch scroll_handleLine 3
       \<lparr>connections =
          [mkConnectionState (- 1), mkConnectionState (- 1), mkConnectionState (- 1),
           mkConnectionState (- 1), mkConnectionState (- 1),
           \<lparr>fd = 5, buf = [], state = HEADER, interpreter = None\<rparr>],
        interest = [3, 5], open_fds = [3, 5], globals = sample_scroll\<rparr>
       (Event 3 6 [])
     = Inr \<lparr>connections =
              [mkConnectionState (- 1), mkConnectionState (- 1), mkConnectionState (- 1),
               mkConnectionState (- 1), mkConnectionState (- 1),
               \<lparr>fd = 5, buf = [], state = HEADER, interpreter = None\<rparr>,
               mkConnectionState 6],
            interest = [3, 5, 6], open_fds = [3, 5, 6], globals = sample_scroll\<rparr> \<and>
   fresh_parser
     ([mkConnectionState (- 1), mkConnectionState (- 1), mkConnectionState (- 1),
       mkConnectionState (- 1), mkConnectionState (- 1),
       \<lparr>fd = 5, buf = [], state = HEADER, interpreter = None\<rparr>,
       mkConnectionState 6 :: scroll_interpreter ConnectionState] ! 6) \<and>
   registry_ok
     \<lparr>connections =
        [mkConnectionState (- 1), mkConnectionState (- 1), mkConnectionState (- 1),
         mkConnectionState (- 1), mkConnectionState (- 1),
         \<lparr>fd = 5, buf = [], state = HEADER, interpreter = None\<rparr>,
         mkConnectionState 6 :: scroll_interpreter ConnectionState],
      interest = [3, 5, 6], open_fds = [3, 5, 6], globals = sample_scroll\<rparr>"
proof -
  let ?c5 = "\<lparr>fd = 5, buf = [], state = HEADER,
      interpreter = None :: scroll_interpreter option\<rparr>"
  let ?w1 = "\<lparr>connections =
          [mkConnectionState (- 1), mkConnectionState (- 1), mkConnectionState (- 1),
           mkConnectionState (- 1), mkConnectionState (- 1), ?c5],
        interest = [3, 5], open_fds = [3, 5], globals = sample_scroll\<rparr>"
  let ?w' = "\<lparr>connections =
          [mkConnectionState (- 1), mkConnectionState (- 1), mkConnectionState (- 1),
           mkConnectionState (- 1), mkConnectionState (- 1), ?c5, mkConnectionState 6],
        interest = [3, 5, 6], open_fds = [3, 5, 6], globals = sample_scroll\<rparr>"
  have h1: "registry_ok (sample_world sample_scroll
      :: (scroll_interpreter, scroll_globals) world)"
    by (simp add: registry_ok_def sample_world_def)
  have h3: "forEvents scroll_handleLine 3 (sample_world sample_scroll)
       [Event 3 5 [], Event 5 5 (''GET'' @ [CR, LF])] = Inr ?w1"
    by (simp add: sample_world_def dispatch_def acceptConnection_def epoll_ctl_add_def
          grow.simps acceptInput_def handleInput_def inputLoop.simps scroll_handleLine_def
          mkConnectionState_def LF_def CR_def Let_def)
  have h4: "dispatch scroll_handleLine 3 ?w1 (Event 3 6 []) = Inr ?w'"
    by (simp add: dispatch_def acceptConnection_def epoll_ctl_add_def grow.simps Let_def)
  have d1: "dispatch scroll_handleLine 3 (sample_world sample_scroll) (Event 3 5 [])
      = Inr (sample_connected sample_scroll)"
    by (simp add: sample_world_def sample_connected_def dispatch_def acceptConnection_def
          epoll_ctl_add_def grow.simps Let_def)
  have d2: "dispatch scroll_handleLine 3 (sample_connected sample_scroll)
        (Event 5 5 [CHR ''G'', CHR ''E'', CHR ''T'', CR, LF]) = Inr ?w1"
    by (simp add: sample_connected_def dispatch_def acceptInput_def handleInput_def
          inputLoop.simps scroll_handleLine_def mkConnectionState_def LF_def CR_def Let_def)
  have h2: "kernel_events scroll_handleLine 3 (sample_world sample_scroll)
       ([Event 3 5 [], Event 5 5 (''GET'' @ [CR, LF])] @ [Event 3 6 []])"
    by (simp add: d1 d2 h4 event_ok_def)
       (simp add: sample_world_def sample_connected_def)
  note T = registry_slot_after_accept[OF h1 h2 h3 h4]
  have c5: "fresh_parser
     ([mkConnectionState (- 1), mkConnectionState (- 1), mkConnectionState (- 1),
       mkConnectionState (- 1), mkConnectionState (- 1), ?c5, mkConnectionState 6] ! 6)"
    using T[THEN conjunct2, THEN conjunct2, THEN conjunct1] by simp
  show ?thesis
    apply (intro conjI)
         apply (rule h1)
        apply (rule h2)
       apply (rule h3)
      apply (rule h4)
     apply (rule c5)
    apply (rule T[THEN conjunct2, THEN conjunct2, THEN conjunct2, THEN conjunct2,
          THEN conjunct2, THEN conjunct2, THEN conjunct1])
    done
qed

subsection \<open>Where the code departs from the specification\<close>

text \<open>
  C1. The specification wants a data line on a connection with no bound interpreter to be
  dropped. In both programs \<open>handleLine\<close> calls \<open>interpreter->handleData\<close> without looking
  at the pointer, so such a line dereferences the null pointer: here for a connection
  already in the state \<open>DATA\<close>, for a fresh connection that sends an unrecognized
  \<open>Content-type\<close> and then a data line, and for the loop of \<open>main\<close> reading a request
  with no header at all.
\<close>

theorem data_line_without_interpreter_fails:
  "scroll_handleLine
       (sample_scroll, \<lparr>fd = 5, buf = [], state = DATA, interpreter = None\<rparr>) ''hello''
     = Inl NullDereference \<and>
   geo_handleLine atof_decimal
       (sample_geo, \<lparr>fd = 5, buf = [], state = DATA, interpreter = None\<rparr>) ''hello''
     = Inl NullDereference \<and>
   handleInput scroll_handleLine (sample_scroll, mkConnectionState 5)
       (''GET'' @ [CR, LF] @ ''Content-type: text/plain'' @ [CR, LF, CR, LF] @
        ''hello'' @ [CR, LF])
     = Inl NullDereference \<and>
   handleInput (geo_handleLine atof_decimal) (sample_geo, mkConnectionState 5)
       (''GET'' @ [CR, LF] @ ''Content-type: text/plain'' @ [CR, LF, CR, LF] @
        ''hello'' @ [CR, LF])
     = Inl NullDereference \<and>
   scroll_mainLoop Inr 3 (sample_connected sample_scroll)
       [sample_turn [Event 5 14 (''GET'' @ [CR, LF, CR, LF] @ ''hello'' @ [CR, LF])],
        sample_turn []]
     = Inl NullDereference"
proof -
  have p1: "scroll_handleLine
       (sample_scroll, \<lparr>fd = 5, buf = [], state = DATA, interpreter = None\<rparr>) ''hello''
     = Inl NullDereference"
    by (simp add: scroll_handleLine_def Let_def)
  have p2: "geo_handleLine atof_decimal
       (sample_geo, \<lparr>fd = 5, buf = [], state = DATA, interpreter = None\<rparr>) ''hello''
     = Inl NullDereference"
    by (simp add: geo_handleLine_def Let_def)
  have p3: "handleInput scroll_handleLine (sample_scroll, mkConnectionState 5)
       (''GET'' @ [CR, LF] @ ''Content-type: text/plain'' @ [CR, LF, CR, LF] @
        ''hello'' @ [CR, LF])
     = Inl NullDereference"
    by (simp add: handleInput_def inputLoop.simps scroll_handleLine_def scroll_handleHeader_def
          mkConnectionState_def LF_def CR_def COLON_def trim_left_copy_def isspace_def Let_def)
  have p4: "handleInput (geo_handleLine atof_decimal) (sample_geo, mkConnectionState 5)
       (''GET'' @ [CR, LF] @ ''Content-type: text/plain'' @ [CR, LF, CR, LF] @
        ''hello'' @ [CR, LF])
     = Inl NullDereference"
    by (simp add: handleInput_def inputLoop.simps geo_handleLine_def geo_handleHeader_def
          mkConnectionState_def LF_def CR_def COLON_def trim_left_copy_def isspace_def Let_def)
  have p5: "scroll_mainLoop Inr 3 (sample_connected sample_scroll)
       [sample_turn [Event 5 14 (''GET'' @ [CR, LF, CR, LF] @ ''hello'' @ [CR, LF])],
        sample_turn []]
     = Inl NullDereference"
    by (simp add: scroll_mainLoop_def sample_turn_def sample_connected_def dispatch_def
          acceptInput_def handleInput_def inputLoop.simps scroll_handleLine_def
          mkConnectionState_def LF_def CR_def COLON_def Let_def)
  show ?thesis
    apply (intro conjI)
        apply (rule p1)
       apply (rule p2)
      apply (rule p3)
     apply (rule p4)
    apply (rule p5)
    done
qed

text \<open>
  C2. The specification wants a read that returns zero or a negative value to unregister
  and close the connection, reset its slot and let the loop go on. \<open>acceptInput\<close> tests
  \<open>len < 0\<close> only, and passes descriptor 0 to \<open>EPOLL_CTL_DEL\<close> instead of \<open>fd\<close>. So
  with connection 5 accepted:
  \<^item> a read that returns 0 changes nothing: 5 stays on the interest list and open, and
    its slot is not reset;
  \<^item> a read that returns \<open>-1\<close> asks the poller to drop descriptor 0, which is not on the
    interest list, and the exception for the failed \<open>epoll_ctl\<close> ends the loop of
    \<open>main\<close>, with a second connection still waiting to be accepted.
\<close>

theorem read_failure_not_handled_per_connection:
  "acceptInput scroll_handleLine 5 0 [] (sample_connected sample_scroll)
     = Inr (sample_connected sample_scroll) \<and>
   acceptInput (geo_handleLine atof_decimal) 5 0 [] (sample_connected sample_geo)
     = Inr (sample_connected sample_geo) \<and>
   5 \<in> set (interest (sample_connected sample_scroll
                        :: (scroll_interpreter, scroll_globals) world)) \<and>
   5 \<in> set (open_fds (sample_connected sample_scroll
                        :: (scroll_interpreter, scroll_globals) world)) \<and>
   connections (sample_connected sample_scroll
                 :: (scroll_interpreter, scroll_globals) world) ! 5 \<noteq> mkConnectionState (- 1) \<and>
   acceptInput scroll_handleLine 5 (- 1) [] (sample_connected sample_scroll)
     = Inl (Thrown ''epoll_ctl(2) failed'') \<and>
   acceptInput (geo_handleLine atof_decimal) 5 (- 1) [] (sample_connected sample_geo)
     = Inl (Thrown ''epoll_ctl(2) failed'') \<and>
   scroll_mainLoop Inr 3 (sample_connected sample_scroll)
       [sample_turn [Event 5 (- 1) [], Event 3 6 []], sample_turn []]
     = Inl (Thrown ''epoll_ctl(2) failed'')"
proof -
  have p1: "acceptInput scroll_handleLine 5 0 [] (sample_connected sample_scroll)
     = Inr (sample_connected sample_scroll)"
    by (simp add: acceptInput_def handleInput_def inputLoop_done sample_connected_def
          mkConnectionState_def)
  have p2: "acceptInput (geo_handleLine atof_decimal) 5 0 [] (sample_connected sample_geo)
     = Inr (sample_connected sample_geo)"
    by (simp add: acceptInput_def handleInput_def inputLoop_done sample_connected_def
          mkConnectionState_def)
  have p3: "5 \<in> set (interest (sample_connected sample_scroll
                        :: (scroll_interpreter, scroll_globals) world))"
    and p4: "5 \<in> set (open_fds (sample_connected sample_scroll
                        :: (scroll_interpreter, scroll_globals) world))"
    and p5: "connections (sample_connected sample_scroll
                 :: (scroll_interpreter, scroll_globals) world) ! 5 \<noteq> mkConnectionState (- 1)"
    by (simp_all add: sample_connected_def mkConnectionState_def)
  have p6: "acceptInput scroll_handleLine 5 (- 1) [] (sample_connected sample_scroll)
     = Inl (Thrown ''epoll_ctl(2) failed'')"
    by (simp add: acceptInput_def epoll_ctl_del_def sample_connected_def)
  have p7: "acceptInput (geo_handleLine atof_decimal) 5 (- 1) [] (sample_connected sample_geo)
     = Inl (Thrown ''epoll_ctl(2) failed'')"
    by (simp add: acceptInput_def epoll_ctl_del_def sample_connected_def)
  have p8: "scroll_mainLoop Inr 3 (sample_connected sample_scroll)
       [sample_turn [Event 5 (- 1) [], Event 3 6 []], sample_turn []]
     = Inl (Thrown ''epoll_ctl(2) failed'')"
    by (simp add: scroll_mainLoop_def sample_turn_def dispatch_def acceptInput_def
          epoll_ctl_del_def sample_connected_def)
  show ?thesis
    apply (intro conjI)
           apply (rule p1)
          apply (rule p2)
         apply (rule p3)
        apply (rule p4)
       apply (rule p5)
      apply (rule p6)
     apply (rule p7)
    apply (rule p8)
    done
qed

text \<open>
  C6. The specification wants a record on a connection bound to the Text interpreter to
  leave the target coordinates alone. In the coordinate display \<open>handleLine\<close> assigns
  \<open>geo.targetLat\<close> and \<open>geo.targetLon\<close> after the call of the interpreter, whichever
  interpreter is bound: a text connection that sends two fields overwrites the targets,
  and one that sends a single field makes \<open>values[1]\<close> a read outside the vector.
\<close>

theorem text_record_overwrites_target:
  "geo_handleLine atof_decimal
       (sample_geo, \<lparr>fd = 5, buf = [], state = DATA, interpreter = Some TextInterpreter\<rparr>)
       (''12.5'' @ [TAB] @ ''-3.25'')
     = Inr (\<lparr>targetLat = 25 / 2, targetLon = - 13 / 4, currentLat = 0, currentLon = 0\<rparr>,
            \<lparr>fd = 5, buf = [], state = DATA, interpreter = Some TextInterpreter\<rparr>) \<and>
   targetLat sample_geo = 0 \<and> targetLon sample_geo = 0 \<and>
   geo_handleLine atof_decimal
       (sample_geo, \<lparr>fd = 5, buf = [], state = DATA, interpreter = Some TextInterpreter\<rparr>)
       ''hello''
     = Inl OutOfBounds"
proof -
  have p1: "geo_handleLine atof_decimal
       (sample_geo, \<lparr>fd = 5, buf = [], state = DATA, interpreter = Some TextInterpreter\<rparr>)
       (''12.5'' @ [TAB] @ ''-3.25'')
     = Inr (\<lparr>targetLat = 25 / 2, targetLon = - 13 / 4, currentLat = 0, currentLon = 0\<rparr>,
            \<lparr>fd = 5, buf = [], state = DATA, interpreter = Some TextInterpreter\<rparr>)"
    by (simp add: geo_handleLine_def TAB_def c_str_def atof_decimal_def isspace_def
          is_digit_def digits_value_def digit_value_def sample_geo_def Let_def)
  have p2: "targetLat sample_geo = 0" and p3: "targetLon sample_geo = 0"
    by (simp_all add: sample_geo_def)
  have p4: "geo_handleLine atof_decimal
       (sample_geo, \<lparr>fd = 5, buf = [], state = DATA, interpreter = Some TextInterpreter\<rparr>)
       ''hello''
     = Inl OutOfBounds"
    by (simp add: geo_handleLine_def TAB_def Let_def)
  show ?thesis
    apply (intro conjI)
       apply (rule p1)
      apply (rule p2)
     apply (rule p3)
    apply (rule p4)
    done
qed


end
